theory Spec2Isabelle
  imports Complex_Main
begin

section \<open>JavaScript numbers\<close>

text \<open>
  The program computes with JavaScript numbers, the IEEE 754 binary64 values: \<open>NaN\<close>,
  the two infinities, the two zeros, and the finite numbers \<open>m * 2^e\<close> with
  \<open>|m| < 2^53\<close> and \<open>e >= -1074\<close> below \<open>2^1024\<close>. \<open>Fin 0\<close> is the positive zero and
  \<open>NegZero\<close> the negative one. Every arithmetic operation gives the exact real result
  rounded to the nearest such number, ties to the even significand; a result that rounds
  to \<open>2^1024\<close> or beyond is an infinity, and one that rounds to 0 is the zero of its sign.
\<close>

datatype number = NaN | Infinity | NegInfinity | NegZero | Fin real

text \<open>The smallest positive number, \<open>2^-1074\<close>, and the bound of the finite numbers.\<close>

definition denorm_min :: real where
  "denorm_min = 1 / 2 ^ 1074"

definition max_bound :: real where
  "max_bound = 2 ^ 1024"

definition round_half_even :: "real \<Rightarrow> int" where
  "round_half_even x =
     (let f = \<lfloor>x\<rfloor> in
      if x - of_int f < 1 / 2 then f
      else if 1 / 2 < x - of_int f then f + 1
      else if even f then f else f + 1)"

text \<open>
  The binary exponent of a real, not below that of the subnormal numbers, and the
  distance between neighbouring binary64 values at that exponent (53 significant bits).
\<close>

definition exponent :: "real \<Rightarrow> int" where
  "exponent r = max \<lfloor>log 2 \<bar>r\<bar>\<rfloor> (- 1022)"

definition quantum :: "real \<Rightarrow> real" where
  "quantum r = 2 ^ nat (exponent r + 1022) * denorm_min"

text \<open>The absolute value of a real, rounded to a multiple of its quantum.\<close>

definition magnitude :: "real \<Rightarrow> real" where
  "magnitude r = of_int (round_half_even (\<bar>r\<bar> / quantum r)) * quantum r"

text \<open>The number that an exact result \<open>r\<close> rounds to.\<close>

definition fl :: "real \<Rightarrow> number" where
  "fl r =
     (if r = 0 then Fin 0
      else if max_bound \<le> magnitude r then (if 0 < r then Infinity else NegInfinity)
      else if magnitude r = 0 then (if 0 < r then Fin 0 else NegZero)
      else Fin (if 0 < r then magnitude r else - magnitude r))"

text \<open>The reals that are binary64 values, and the numbers of the model that are.\<close>

definition representable :: "real \<Rightarrow> bool" where
  "representable r \<longleftrightarrow>
     (\<exists>m e :: int. r = of_int m * 2 powr of_int e \<and> \<bar>m\<bar> < 2 ^ 53 \<and> - 1074 \<le> e) \<and>
     \<bar>r\<bar> < max_bound"

fun is_double :: "number \<Rightarrow> bool" where
  "is_double (Fin r) = representable r"
| "is_double _ = True"

fun isNaN :: "number \<Rightarrow> bool" where
  "isNaN NaN = True"
| "isNaN _ = False"

fun is_finite :: "number \<Rightarrow> bool" where
  "is_finite (Fin a) = True"
| "is_finite NegZero = True"
| "is_finite _ = False"

fun is_zero :: "number \<Rightarrow> bool" where
  "is_zero (Fin a) = (a = 0)"
| "is_zero NegZero = True"
| "is_zero _ = False"

text \<open>The sign bit, and the real value of a finite number.\<close>

fun sign_bit :: "number \<Rightarrow> bool" where
  "sign_bit (Fin a) = (a < 0)"
| "sign_bit NegZero = True"
| "sign_bit NegInfinity = True"
| "sign_bit _ = False"

fun fv :: "number \<Rightarrow> real" where
  "fv (Fin a) = a"
| "fv _ = 0"

definition signed_zero :: "bool \<Rightarrow> number" where
  "signed_zero negative = (if negative then NegZero else Fin 0)"

definition signed_infinity :: "bool \<Rightarrow> number" where
  "signed_infinity negative = (if negative then NegInfinity else Infinity)"

fun js_neg :: "number \<Rightarrow> number" where
  "js_neg NaN = NaN"
| "js_neg Infinity = NegInfinity"
| "js_neg NegInfinity = Infinity"
| "js_neg NegZero = Fin 0"
| "js_neg (Fin a) = (if a = 0 then NegZero else Fin (- a))"

text \<open>
  Addition: \<open>Infinity + -Infinity\<close> is \<open>NaN\<close>; a sum that is exactly 0 is \<open>+0\<close>
  unless both operands are \<open>-0\<close>.
\<close>

definition js_add :: "number \<Rightarrow> number \<Rightarrow> number" where
  "js_add a b =
     (if isNaN a \<or> isNaN b then NaN
      else if is_finite a \<and> is_finite b then
        (if a = NegZero \<and> b = NegZero then NegZero else fl (fv a + fv b))
      else if is_finite a then b
      else if is_finite b then a
      else if a = b then a else NaN)"

definition js_sub :: "number \<Rightarrow> number \<Rightarrow> number" where
  "js_sub a b = js_add a (js_neg b)"

text \<open>
  Multiplication: an infinity times a zero is \<open>NaN\<close>; the sign of a zero or infinite
  product is the exclusive or of the signs.
\<close>

definition js_mul :: "number \<Rightarrow> number \<Rightarrow> number" where
  "js_mul a b =
     (if isNaN a \<or> isNaN b then NaN
      else if is_finite a \<and> is_finite b then
        (if fv a * fv b = 0 then signed_zero (sign_bit a \<noteq> sign_bit b)
         else fl (fv a * fv b))
      else if is_zero a \<or> is_zero b then NaN
      else signed_infinity (sign_bit a \<noteq> sign_bit b))"

text \<open>
  Division: \<open>0 / 0\<close> and \<open>Infinity / Infinity\<close> are \<open>NaN\<close>; a non-zero number over a
  zero is an infinity, a finite number over an infinity a zero, with the exclusive or of
  the signs, so \<open>1 / -0\<close> is \<open>-Infinity\<close>.
\<close>

definition js_div :: "number \<Rightarrow> number \<Rightarrow> number" where
  "js_div a b =
     (if isNaN a \<or> isNaN b then NaN
      else if is_finite a \<and> is_finite b then
        (if is_zero b then
           (if is_zero a then NaN else signed_infinity (sign_bit a \<noteq> sign_bit b))
         else if is_zero a then signed_zero (sign_bit a \<noteq> sign_bit b)
         else fl (fv a / fv b))
      else if is_finite a then signed_zero (sign_bit a \<noteq> sign_bit b)
      else if is_finite b then signed_infinity (sign_bit a \<noteq> sign_bit b)
      else NaN)"

text \<open>
  Comparisons: every comparison with \<open>NaN\<close> is false, also \<open>NaN == NaN\<close>; the two
  zeros are equal.
\<close>

definition js_lt :: "number \<Rightarrow> number \<Rightarrow> bool" where
  "js_lt a b \<longleftrightarrow>
     \<not> isNaN a \<and> \<not> isNaN b \<and>
     (if is_finite a \<and> is_finite b then fv a < fv b
      else a \<noteq> b \<and> (a = NegInfinity \<or> b = Infinity))"

definition js_eq :: "number \<Rightarrow> number \<Rightarrow> bool" where
  "js_eq a b \<longleftrightarrow> \<not> isNaN a \<and> \<not> isNaN b \<and> (a = b \<or> is_zero a \<and> is_zero b)"

definition js_ne :: "number \<Rightarrow> number \<Rightarrow> bool" where
  "js_ne a b = (\<not> js_eq a b)"

definition js_le :: "number \<Rightarrow> number \<Rightarrow> bool" where
  "js_le a b = (js_lt a b \<or> js_eq a b)"

definition js_gt :: "number \<Rightarrow> number \<Rightarrow> bool" where
  "js_gt a b = js_lt b a"

definition js_ge :: "number \<Rightarrow> number \<Rightarrow> bool" where
  "js_ge a b = js_le b a"

text \<open>
  \<open>Math.max\<close>, \<open>Math.abs\<close>, \<open>Math.exp\<close>, \<open>Math.log\<close> and \<open>Math.sqrt\<close>. \<open>Math.max\<close>
  takes \<open>+0\<close> as greater than \<open>-0\<close>. The square root is correctly rounded. The
  language leaves the last bits of the exponential and the logarithm to the
  implementation; they are taken as correctly rounded here, and the properties below
  rest only on their special cases (\<open>NaN\<close>, the infinities, the zeros, \<open>log(1) = 0\<close>,
  \<open>exp(0) = 1\<close>) and on their results being numbers.
\<close>

definition Math_max :: "number \<Rightarrow> number \<Rightarrow> number" where
  "Math_max a b =
     (if isNaN a \<or> isNaN b then NaN
      else if js_gt a b then a
      else if js_gt b a then b
      else if a = NegZero then b else a)"

fun Math_abs :: "number \<Rightarrow> number" where
  "Math_abs NaN = NaN"
| "Math_abs Infinity = Infinity"
| "Math_abs NegInfinity = Infinity"
| "Math_abs NegZero = Fin 0"
| "Math_abs (Fin a) = Fin \<bar>a\<bar>"

fun Math_exp :: "number \<Rightarrow> number" where
  "Math_exp NaN = NaN"
| "Math_exp Infinity = Infinity"
| "Math_exp NegInfinity = Fin 0"
| "Math_exp NegZero = Fin 1"
| "Math_exp (Fin a) = fl (exp a)"

fun Math_log :: "number \<Rightarrow> number" where
  "Math_log NaN = NaN"
| "Math_log Infinity = Infinity"
| "Math_log NegInfinity = NaN"
| "Math_log NegZero = NegInfinity"
| "Math_log (Fin a) = (if a < 0 then NaN else if a = 0 then NegInfinity else fl (ln a))"

fun Math_sqrt :: "number \<Rightarrow> number" where
  "Math_sqrt NaN = NaN"
| "Math_sqrt Infinity = Infinity"
| "Math_sqrt NegInfinity = NaN"
| "Math_sqrt NegZero = NegZero"
| "Math_sqrt (Fin a) = (if a < 0 then NaN else fl (sqrt a))"

text \<open>
  A property that may be absent reads as \<open>undefined\<close> (\<open>None\<close>). In arithmetic
  \<open>undefined\<close> converts to \<open>NaN\<close>; \<open>v || 0\<close> is \<open>0\<close> when \<open>v\<close> is falsy, which
  for a number or \<open>undefined\<close> means \<open>undefined\<close>, \<open>0\<close>, \<open>-0\<close> or \<open>NaN\<close>.
\<close>

fun to_number :: "number option \<Rightarrow> number" where
  "to_number None = NaN"
| "to_number (Some v) = v"

fun or_zero :: "number option \<Rightarrow> number" where
  "or_zero None = Fin 0"
| "or_zero (Some v) = (if isNaN v \<or> is_zero v then Fin 0 else v)"

section \<open>The engine: nodes and the tape\<close>

text \<open>
  A node holds its value, its parents, the local derivative with respect to each parent
  and, after the backward pass, its derivative. The global \<open>aad_stack\<close> is the state
  every operation takes and returns. A reference to a node is the node's position in
  \<open>aad_stack\<close>: every node is created by a push, and references to nodes that are not
  on the current stack are outside the model (reading through one is a \<open>TypeError\<close>,
  as reading through \<open>undefined\<close> is).
\<close>

record node =
  val :: number
  parents :: "nat list"
  ddparents :: "number list"
  derivative :: "number option"

text \<open>
  The strings the program throws: "Division by 0" (the specification's
  \<open>DivisionByZero\<close>), "NAN from exp(...)" and "NAN from log(...)" with the offending
  value (\<open>NumericDomainError\<close>), "unequal vector sizes" (\<open>LengthMismatch\<close>); and the
  \<open>TypeError\<close> of reading a property of \<open>undefined\<close>.
\<close>

datatype error =
    Division_by_0
  | NAN_from_exp number
  | NAN_from_log number
  | Unequal_vector_sizes
  | TypeError

type_synonym tape = "node list"

definition aad_begin :: "tape \<Rightarrow> tape" where
  "aad_begin aad_stack = []"

definition node_at :: "tape \<Rightarrow> nat \<Rightarrow> node option" where
  "node_at aad_stack h = (if h < length aad_stack then Some (aad_stack ! h) else None)"

definition push :: "node \<Rightarrow> tape \<Rightarrow> (error + nat) \<times> tape" where
  "push n aad_stack = (Inr (length aad_stack), aad_stack @ [n])"

definition const_node :: "number \<Rightarrow> node" where
  "const_node c = \<lparr>val = c, parents = [], ddparents = [], derivative = None\<rparr>"

definition aad_const :: "number \<Rightarrow> tape \<Rightarrow> (error + nat) \<times> tape" where
  "aad_const c aad_stack = push (const_node c) aad_stack"

definition aad_add :: "nat \<Rightarrow> nat \<Rightarrow> tape \<Rightarrow> (error + nat) \<times> tape" where
  "aad_add h1 h2 aad_stack =
     (case (node_at aad_stack h1, node_at aad_stack h2) of
        (Some node1, Some node2) \<Rightarrow>
          push \<lparr>val = js_add (val node1) (val node2), parents = [h1, h2],
                ddparents = [Fin 1, Fin 1], derivative = None\<rparr> aad_stack
      | _ \<Rightarrow> (Inl TypeError, aad_stack))"

definition aad_sub :: "nat \<Rightarrow> nat \<Rightarrow> tape \<Rightarrow> (error + nat) \<times> tape" where
  "aad_sub h1 h2 aad_stack =
     (case (node_at aad_stack h1, node_at aad_stack h2) of
        (Some node1, Some node2) \<Rightarrow>
          push \<lparr>val = js_sub (val node1) (val node2), parents = [h1, h2],
                ddparents = [Fin 1, Fin (- 1)], derivative = None\<rparr> aad_stack
      | _ \<Rightarrow> (Inl TypeError, aad_stack))"

definition aad_mul :: "nat \<Rightarrow> nat \<Rightarrow> tape \<Rightarrow> (error + nat) \<times> tape" where
  "aad_mul h1 h2 aad_stack =
     (case (node_at aad_stack h1, node_at aad_stack h2) of
        (Some node1, Some node2) \<Rightarrow>
          push \<lparr>val = js_mul (val node1) (val node2), parents = [h1, h2],
                ddparents = [val node2, val node1], derivative = None\<rparr> aad_stack
      | _ \<Rightarrow> (Inl TypeError, aad_stack))"

definition aad_div :: "nat \<Rightarrow> nat \<Rightarrow> tape \<Rightarrow> (error + nat) \<times> tape" where
  "aad_div h1 h2 aad_stack =
     (case (node_at aad_stack h1, node_at aad_stack h2) of
        (Some node1, Some node2) \<Rightarrow>
          if js_eq (val node2) (Fin 0) then (Inl Division_by_0, aad_stack)
          else
            push \<lparr>val = js_div (val node1) (val node2), parents = [h1, h2],
                  ddparents = [js_div (Fin 1) (val node2),
                               js_div (js_neg (val node1)) (js_mul (val node2) (val node2))],
                  derivative = None\<rparr> aad_stack
      | _ \<Rightarrow> (Inl TypeError, aad_stack))"

definition aad_exp :: "nat \<Rightarrow> tape \<Rightarrow> (error + nat) \<times> tape" where
  "aad_exp h aad_stack =
     (case node_at aad_stack h of
        Some n \<Rightarrow>
          (let x = Math_exp (val n) in
           if isNaN x then (Inl (NAN_from_exp (val n)), aad_stack)
           else push \<lparr>val = x, parents = [h], ddparents = [x], derivative = None\<rparr> aad_stack)
      | None \<Rightarrow> (Inl TypeError, aad_stack))"

definition aad_log :: "nat \<Rightarrow> tape \<Rightarrow> (error + nat) \<times> tape" where
  "aad_log h aad_stack =
     (case node_at aad_stack h of
        Some n \<Rightarrow>
          (let x = Math_log (val n) in
           if isNaN x then (Inl (NAN_from_log (val n)), aad_stack)
           else push \<lparr>val = x, parents = [h], ddparents = [js_div (Fin 1) (val n)],
                       derivative = None\<rparr> aad_stack)
      | None \<Rightarrow> (Inl TypeError, aad_stack))"

definition aad_pow :: "nat \<Rightarrow> nat \<Rightarrow> tape \<Rightarrow> (error + nat) \<times> tape" where
  "aad_pow h1 h2 aad_stack =
     (case node_at aad_stack h1 of
        None \<Rightarrow> (Inl TypeError, aad_stack)
      | Some node1 \<Rightarrow>
          if js_eq (val node1) (Fin 0) then aad_const (Fin 0) aad_stack
          else
            (case aad_log h1 aad_stack of
               (Inl e, s1) \<Rightarrow> (Inl e, s1)
             | (Inr l, s1) \<Rightarrow>
                 (case aad_mul h2 l s1 of
                    (Inl e, s2) \<Rightarrow> (Inl e, s2)
                  | (Inr m, s2) \<Rightarrow> aad_exp m s2)))"

definition aad_max :: "nat \<Rightarrow> nat \<Rightarrow> tape \<Rightarrow> (error + nat) \<times> tape" where
  "aad_max h1 h2 aad_stack =
     (case (node_at aad_stack h1, node_at aad_stack h2) of
        (Some node1, Some node2) \<Rightarrow>
          push \<lparr>val = Math_max (val node1) (val node2), parents = [h1, h2],
                ddparents = [if js_ge (val node1) (val node2) then Fin 1 else Fin 0,
                             if js_ge (val node1) (val node2) then Fin 0 else Fin 1],
                derivative = None\<rparr> aad_stack
      | _ \<Rightarrow> (Inl TypeError, aad_stack))"

text \<open>
  A program is a sequence of engine calls on the tape that \<open>aad_begin\<close> emptied. A call
  that throws leaves the tape as it was when the exception rose; a caller that catches
  the exception goes on with that tape.
\<close>

datatype call =
    Const number
  | Add nat nat
  | Sub nat nat
  | Mul nat nat
  | Div nat nat
  | Exp nat
  | Pow nat nat
  | Max nat nat
  | Log nat

fun run :: "call \<Rightarrow> tape \<Rightarrow> (error + nat) \<times> tape" where
  "run (Const c) s = aad_const c s"
| "run (Add a b) s = aad_add a b s"
| "run (Sub a b) s = aad_sub a b s"
| "run (Mul a b) s = aad_mul a b s"
| "run (Div a b) s = aad_div a b s"
| "run (Exp a) s = aad_exp a s"
| "run (Pow a b) s = aad_pow a b s"
| "run (Max a b) s = aad_max a b s"
| "run (Log a) s = aad_log a s"

definition session :: "call list \<Rightarrow> tape" where
  "session cs = fold (\<lambda>c s. snd (run c s)) cs (aad_begin [])"

text \<open>
  Well-formedness of a tape: every node has as many local derivatives as parents, and
  every parent of the node at position \<open>i\<close> is at a position before \<open>i\<close>.
\<close>

definition wf_node :: "nat \<Rightarrow> node \<Rightarrow> bool" where
  "wf_node i n \<longleftrightarrow>
     length (parents n) = length (ddparents n) \<and> list_all (\<lambda>p. p < i) (parents n)"

definition wf_tape :: "tape \<Rightarrow> bool" where
  "wf_tape s \<longleftrightarrow> (\<forall>i < length s. wf_node i (s ! i))"

section \<open>Vectors\<close>

type_synonym vec = "number list"

definition vec_scale :: "vec \<Rightarrow> number \<Rightarrow> vec" where
  "vec_scale v x = map (\<lambda>y. js_mul x y) v"

definition vec_add :: "vec \<Rightarrow> vec \<Rightarrow> error + vec" where
  "vec_add vec1 vec2 =
     (if length vec1 \<noteq> length vec2 then Inl Unequal_vector_sizes
      else Inr (map (\<lambda>(x, y). js_add x y) (zip vec1 vec2)))"

definition vec_norm :: "vec \<Rightarrow> number" where
  "vec_norm v = Math_sqrt (foldl (\<lambda>t x. js_add t (js_mul x x)) (Fin 0) v)"

text \<open>The loop of \<open>vec_equal\<close>, on vectors of one length: the first unequal pair returns.\<close>

fun vec_equal_loop :: "vec \<Rightarrow> vec \<Rightarrow> bool" where
  "vec_equal_loop (x # xs) (y # ys) = (if js_ne x y then False else vec_equal_loop xs ys)"
| "vec_equal_loop _ _ = True"

definition vec_equal :: "vec \<Rightarrow> vec \<Rightarrow> bool" where
  "vec_equal vec1 vec2 =
     (if length vec1 \<noteq> length vec2 then False else vec_equal_loop vec1 vec2)"

section \<open>The backward pass\<close>

text \<open>
  \<open>aad_calc_derivs\<close> writes \<open>derivative = 1\<close> on the last node of the stack, then
  walks the stack from the last position down to 0; at node \<open>n\<close> it runs over the
  positions \<open>i\<close> of \<open>node.parents\<close> and assigns
  \<open>parent.derivative = (parent.derivative || 0) + node.ddparents[i] * node.derivative\<close>.
  Reading \<open>ddparents[i]\<close> past the end of the array, or the derivative of a node that has
  none, gives \<open>undefined\<close>, which the multiplication converts to \<open>NaN\<close>. An empty
  stack, or a parent that is not on the stack, is a \<open>TypeError\<close>.
\<close>

definition set_derivative :: "nat \<Rightarrow> number \<Rightarrow> tape \<Rightarrow> tape" where
  "set_derivative h d s = s[h := (s ! h)\<lparr>derivative := Some d\<rparr>]"

definition nth_opt :: "'a list \<Rightarrow> nat \<Rightarrow> 'a option" where
  "nth_opt xs i = (if i < length xs then Some (xs ! i) else None)"

fun chain_rule :: "nat \<Rightarrow> nat list \<Rightarrow> tape \<Rightarrow> error + tape" where
  "chain_rule n [] s = Inr s"
| "chain_rule n (i # is) s =
     (let p = parents (s ! n) ! i in
      case node_at s p of
        None \<Rightarrow> Inl TypeError
      | Some parent \<Rightarrow>
          chain_rule n is
            (set_derivative p
               (js_add (or_zero (derivative parent))
                  (js_mul (to_number (nth_opt (ddparents (s ! n)) i))
                     (to_number (derivative (s ! n))))) s))"

fun walk :: "nat list \<Rightarrow> tape \<Rightarrow> error + tape" where
  "walk [] s = Inr s"
| "walk (n # ns) s =
     (case chain_rule n [0 ..< length (parents (s ! n))] s of
        Inl e \<Rightarrow> Inl e
      | Inr s' \<Rightarrow> walk ns s')"

definition aad_calc_derivs :: "tape \<Rightarrow> error + tape" where
  "aad_calc_derivs aad_stack =
     (if aad_stack = [] then Inl TypeError
      else walk (rev [0 ..< length aad_stack])
             (set_derivative (length aad_stack - 1) (Fin 1) aad_stack))"

text \<open>
  The backward pass as the specification words it: the output (the last node) gets
  derivative 1; then, over the tape in reverse creation order, each pair of a parent and
  a local derivative of each node adds \<open>local_derivative * n.derivative\<close> to the
  parent's derivative. The parameter \<open>prior\<close> reads the parent's derivative before the
  addition; an absent derivative of the node itself counts as 0, as the specification's
  data model says of an absent derivative.
\<close>

fun absent_zero :: "number option \<Rightarrow> number" where
  "absent_zero None = Fin 0"
| "absent_zero (Some v) = v"

definition accumulate ::
  "(number option \<Rightarrow> number) \<Rightarrow> nat \<Rightarrow> nat \<times> number \<Rightarrow> tape \<Rightarrow> tape" where
  "accumulate prior n pl s =
     set_derivative (fst pl)
       (js_add (prior (derivative (s ! fst pl)))
          (js_mul (snd pl) (absent_zero (derivative (s ! n))))) s"

definition visit :: "(number option \<Rightarrow> number) \<Rightarrow> nat \<Rightarrow> tape \<Rightarrow> tape" where
  "visit prior n s = fold (accumulate prior n) (zip (parents (s ! n)) (ddparents (s ! n))) s"

definition backward :: "(number option \<Rightarrow> number) \<Rightarrow> tape \<Rightarrow> tape" where
  "backward prior s =
     fold (visit prior) (rev [0 ..< length s]) (set_derivative (length s - 1) (Fin 1) s)"

text \<open>The specification's pass: only an absent prior derivative is read as 0.\<close>

definition compute_derivatives :: "tape \<Rightarrow> tape" where
  "compute_derivatives s = backward absent_zero s"

text \<open>The pass with the program's \<open>|| 0\<close>: an absent, zero or \<open>NaN\<close> prior is read as 0.\<close>

definition compute_derivatives_falsy :: "tape \<Rightarrow> tape" where
  "compute_derivatives_falsy s = backward or_zero s"

text \<open>
  A node is used when a later node has it among its parents. On a tape where every node
  with parents, but for the last, is used, the walk reaches no node with parents before
  that node got a derivative.
\<close>

definition used :: "tape \<Rightarrow> nat \<Rightarrow> bool" where
  "used s n \<longleftrightarrow> (\<exists>m < length s. n < m \<and> n \<in> set (parents (s ! m)))"

definition all_used :: "tape \<Rightarrow> bool" where
  "all_used s \<longleftrightarrow> (\<forall>n < length s - 1. parents (s ! n) \<noteq> [] \<longrightarrow> used s n)"

text \<open>
  What the walk needs before it visits the nodes below position \<open>j\<close>: each of them
  that has parents has a derivative already, or a node that is still to be visited has
  it among its parents.
\<close>

definition ready :: "nat \<Rightarrow> tape \<Rightarrow> bool" where
  "ready j s \<longleftrightarrow>
     (\<forall>n < j. parents (s ! n) \<noteq> [] \<longrightarrow>
        derivative (s ! n) \<noteq> None \<or> (\<exists>c < j. n < c \<and> n \<in> set (parents (s ! c))))"

definition extends :: "tape \<Rightarrow> tape \<Rightarrow> bool" where
  "extends s s' \<longleftrightarrow> (\<exists>new. s' = s @ new)"


section \<open>The minimizer\<close>

text \<open>
  The objective \<open>f\<close> returns the value and the gradient at a point, or throws. Both
  loops of \<open>gradient_descent_minimize\<close> may run forever, so they are partial functions:
  \<open>None\<close> is a run that does not return, \<open>Some (Inl e)\<close> one that throws \<open>e\<close>.
  The counter \<open>iter\<close> is a number like every other, and \<open>iter++\<close> adds 1 to it;
  \<open>nrm\<close> is the program's \<open>norm\<close>; the cap \<open>max_iter\<close> is whatever number the
  caller passes. The literals \<open>1e-15\<close>, \<open>.1\<close> and \<open>1.1\<close> are the numbers nearest to
  these decimals; \<open>.5\<close> and \<open>-1\<close> are exact.
\<close>

type_synonym objective = "vec \<Rightarrow> error + number \<times> vec"

text \<open>The test that ends the outer loop, after \<open>iter++\<close>.\<close>

definition stop :: "number \<Rightarrow> number \<Rightarrow> number \<Rightarrow> number \<Rightarrow> number \<Rightarrow> bool" where
  "stop step nrm y iter max_iter \<longleftrightarrow>
     js_le (js_mul step nrm) (js_mul (fl (1 / 10 ^ 15)) (Math_abs y)) \<or>
     js_ge iter max_iter"

text \<open>The test that ends the inner loop: the Armijo rule, or a step that moves nothing.\<close>

definition accept :: "vec \<Rightarrow> number \<Rightarrow> number \<Rightarrow> number \<Rightarrow> vec \<Rightarrow> number \<Rightarrow> bool" where
  "accept x y nrm step new_x new_y \<longleftrightarrow>
     js_gt (js_sub y new_y) (js_mul (js_mul (fl (1 / 10)) step) nrm) \<or> vec_equal x new_x"

partial_function (option) shrink ::
  "objective \<Rightarrow> vec \<Rightarrow> number \<Rightarrow> vec \<Rightarrow> number \<Rightarrow> number \<Rightarrow> (error + number \<times> vec) option"
where
  "shrink f x y direction nrm step =
     (case vec_add x (vec_scale direction (js_div step nrm)) of
        Inl e \<Rightarrow> Some (Inl e)
      | Inr new_x \<Rightarrow>
          (case f new_x of
             Inl e \<Rightarrow> Some (Inl e)
           | Inr (new_y, new_dy) \<Rightarrow>
               if accept x y nrm step new_x new_y then Some (Inr (step, new_x))
               else shrink f x y direction nrm (js_mul step (Fin (1 / 2)))))"

partial_function (option) descend ::
  "objective \<Rightarrow> number \<Rightarrow> number \<Rightarrow> number \<Rightarrow> vec \<Rightarrow> (error + vec) option"
where
  "descend f max_iter iter step x =
     (case f x of
        Inl e \<Rightarrow> Some (Inl e)
      | Inr (y, dy) \<Rightarrow>
          (let direction = vec_scale dy (Fin (- 1));
               nrm = vec_norm direction
           in if stop step nrm y (js_add iter (Fin 1)) max_iter then Some (Inr x)
              else
                Option.bind (shrink f x y direction nrm step)
                  (\<lambda>r. case r of
                     Inl e \<Rightarrow> Some (Inl e)
                   | Inr (step', new_x) \<Rightarrow>
                       descend f max_iter (js_add iter (Fin 1))
                         (js_mul step' (fl (11 / 10))) new_x)))"

definition gradient_descent_minimize :: "objective \<Rightarrow> vec \<Rightarrow> number \<Rightarrow> (error + vec) option" where
  "gradient_descent_minimize f guess max_iter = descend f max_iter (Fin 0) (Fin 1) guess"

text \<open>
  The states in which an execution of \<open>gradient_descent_minimize f guess max_iter\<close> is
  at the head of the outer loop: the counter, the step and the point.
\<close>

inductive at_loop_head :: "objective \<Rightarrow> vec \<Rightarrow> number \<Rightarrow> number \<Rightarrow> number \<Rightarrow> vec \<Rightarrow> bool"
  for f :: objective and guess :: vec and max_iter :: number
where
  start: "at_loop_head f guess max_iter (Fin 0) (Fin 1) guess"
| again:
    "at_loop_head f guess max_iter iter step x \<Longrightarrow>
     f x = Inr (y, dy) \<Longrightarrow>
     \<not> stop step (vec_norm (vec_scale dy (Fin (- 1)))) y (js_add iter (Fin 1)) max_iter \<Longrightarrow>
     shrink f x y (vec_scale dy (Fin (- 1))) (vec_norm (vec_scale dy (Fin (- 1)))) step =
       Some (Inr (step', new_x)) \<Longrightarrow>
     at_loop_head f guess max_iter (js_add iter (Fin 1)) (js_mul step' (fl (11 / 10))) new_x"

text \<open>
  The execution enters the backtracking loop with this value, norm and step: it is at
  the head of the outer loop, the objective returned, and the test did not stop it.
\<close>

definition enters_inner_loop ::
  "objective \<Rightarrow> vec \<Rightarrow> number \<Rightarrow> number \<Rightarrow> number \<Rightarrow> number \<Rightarrow> bool" where
  "enters_inner_loop f guess max_iter y nrm step \<longleftrightarrow>
     (\<exists>iter x dy. at_loop_head f guess max_iter iter step x \<and> f x = Inr (y, dy) \<and>
        nrm = vec_norm (vec_scale dy (Fin (- 1))) \<and>
        \<not> stop step nrm y (js_add iter (Fin 1)) max_iter)"

text \<open>
  A run without numerical accidents: the guess is a vector of numbers, and whenever the
  execution enters the backtracking loop, the step has not overflowed to \<open>Infinity\<close>, the
  point holds no \<open>NaN\<close>, the value of the objective is not \<open>NaN\<close>, and its gradient has
  the length of the point and holds finite numbers only.
\<close>

definition regular_run :: "objective \<Rightarrow> vec \<Rightarrow> number \<Rightarrow> bool" where
  "regular_run f guess max_iter \<longleftrightarrow>
     list_all is_double guess \<and>
     (\<forall>iter step x y dy.
        at_loop_head f guess max_iter iter step x \<and> f x = Inr (y, dy) \<and>
        \<not> stop step (vec_norm (vec_scale dy (Fin (- 1)))) y (js_add iter (Fin 1)) max_iter \<longrightarrow>
        step \<noteq> Infinity \<and> \<not> isNaN y \<and> list_all (\<lambda>v. \<not> isNaN v) x \<and>
        length dy = length x \<and> list_all (\<lambda>v. is_finite v \<and> is_double v) dy)"

text \<open>
  The values the step takes: \<open>Infinity\<close>, or a finite number that is not negative, which
  is a multiple of the smallest positive number.
\<close>

definition grid_step :: "number \<Rightarrow> bool" where
  "grid_step v \<longleftrightarrow>
     v = Infinity \<or> (\<exists>k::nat. v = Fin (of_nat k * denorm_min) \<and> of_nat k * denorm_min < max_bound)"

text \<open>The numbers a sum of squares and its square root can be.\<close>

definition not_negative :: "number \<Rightarrow> bool" where
  "not_negative t \<longleftrightarrow> t = NaN \<or> t = Infinity \<or> (\<exists>r. t = Fin r \<and> 0 \<le> r)"

text \<open>
  Three objectives that never throw: one that is constant with a constant non-zero
  gradient, one whose value is \<open>NaN\<close> with a zero gradient, and the first coordinate
  with its gradient 1 (\<open>x[0]\<close> of an empty array is \<open>undefined\<close>).
\<close>

definition flat_objective :: objective where
  "flat_objective x = Inr (Fin 1, [Fin 1])"

definition nan_objective :: objective where
  "nan_objective x = Inr (NaN, [Fin 0])"

definition first_coordinate :: objective where
  "first_coordinate x = Inr (to_number (nth_opt x 0), [Fin 1])"

section \<open>Properties of rounding\<close>

lemma denorm_min_pos: "0 < denorm_min"
  by (simp add: denorm_min_def)

lemma round_half_even_of_int [simp]: "round_half_even (of_int k) = k"
  by (simp add: round_half_even_def)

lemma round_half_even_0 [simp]: "round_half_even 0 = 0"
  by (simp add: round_half_even_def)

lemma round_half_even_le: "of_int (round_half_even x) \<le> x + 1 / 2"
  unfolding round_half_even_def Let_def by (auto simp add: not_less) linarith+

lemma round_half_even_ge: "x - 1 / 2 \<le> of_int (round_half_even x)"
  unfolding round_half_even_def Let_def by (auto simp add: not_less) linarith+

lemma round_half_even_nonneg: "0 \<le> x \<Longrightarrow> 0 \<le> round_half_even x"
  unfolding round_half_even_def Let_def by auto

lemma round_half_even_half: "round_half_even (1 / 2) = 0"
  by (simp add: round_half_even_def)

lemma quantum_pos: "0 < quantum r"
  by (simp add: quantum_def denorm_min_pos)

lemma floor_log_bounds:
  assumes "0 < a"
  shows "2 powr of_int \<lfloor>log 2 a\<rfloor> \<le> a" and "a < 2 powr (of_int \<lfloor>log 2 a\<rfloor> + 1)"
proof -
  have "of_int \<lfloor>log 2 a\<rfloor> \<le> log 2 a" by simp
  then have "2 powr of_int \<lfloor>log 2 a\<rfloor> \<le> 2 powr log 2 a"
    by (simp del: of_int_floor_le)
  with assms show "2 powr of_int \<lfloor>log 2 a\<rfloor> \<le> a" by simp
  have "log 2 a < of_int \<lfloor>log 2 a\<rfloor> + 1" by linarith
  then have "2 powr log 2 a < 2 powr (of_int \<lfloor>log 2 a\<rfloor> + 1)"
    by simp
  with assms show "a < 2 powr (of_int \<lfloor>log 2 a\<rfloor> + 1)" by simp
qed

lemma two_powr_nat: "0 \<le> k \<Longrightarrow> (2::real) ^ nat k = 2 powr of_int k"
  by (simp add: powr_realpow [symmetric])

lemma denorm_min_powr: "denorm_min = 2 powr (- 1074)"
  unfolding denorm_min_def
  by (simp add: powr_minus inverse_eq_divide del: power_numeral)


lemma quantum_powr: "quantum r = 2 powr (of_int (exponent r) - 52)"
proof -
  have "0 \<le> exponent r + 1022"
    by (simp add: exponent_def)
  then have "(2::real) ^ nat (exponent r + 1022) = 2 powr of_int (exponent r + 1022)"
    by (rule two_powr_nat)
  then have "quantum r = 2 powr of_int (exponent r + 1022) * 2 powr (- 1074)"
    by (simp add: quantum_def denorm_min_powr)
  also have "\<dots> = 2 powr (of_int (exponent r + 1022) + (- 1074))"
    by (simp only: powr_add)
  finally show ?thesis by simp
qed

lemma quantum_normal:
  assumes "r \<noteq> 0" and "- 1022 \<le> \<lfloor>log 2 \<bar>r\<bar>\<rfloor>"
  shows "2 ^ 52 * quantum r \<le> \<bar>r\<bar>" and "\<bar>r\<bar> < 2 ^ 53 * quantum r"
proof -
  let ?E = "\<lfloor>log 2 \<bar>r\<bar>\<rfloor>"
  from assms(2) have e: "exponent r = ?E"
    by (simp add: exponent_def)
  from assms(1) have a: "0 < \<bar>r\<bar>" by simp
  have p52: "(2::real) ^ 52 = 2 powr 52" and p53: "(2::real) ^ 53 = 2 powr 53"
    by simp_all
  have s52: "52 + (of_int ?E - 52) = (of_int ?E :: real)"
    and s53: "53 + (of_int ?E - 52) = (of_int ?E + 1 :: real)"
    by simp_all
  have "(2::real) ^ 52 * quantum r = 2 powr (52 + (of_int ?E - 52))"
    unfolding quantum_powr e p52 by (simp only: powr_add)
  then have "(2::real) ^ 52 * quantum r = 2 powr of_int ?E"
    unfolding s52 .
  then show "2 ^ 52 * quantum r \<le> \<bar>r\<bar>"
    using floor_log_bounds(1) [OF a] by (simp del: power_numeral)
  have "(2::real) ^ 53 * quantum r = 2 powr (53 + (of_int ?E - 52))"
    unfolding quantum_powr e p53 by (simp only: powr_add)
  then have "(2::real) ^ 53 * quantum r = 2 powr (of_int ?E + 1)"
    unfolding s53 .
  then show "\<bar>r\<bar> < 2 ^ 53 * quantum r"
    using floor_log_bounds(2) [OF a] by (simp del: power_numeral)
qed

lemma quantum_subnormal:
  assumes "r \<noteq> 0" and "\<lfloor>log 2 \<bar>r\<bar>\<rfloor> < - 1022"
  shows "quantum r = denorm_min" and "\<bar>r\<bar> < 2 ^ 52 * denorm_min"
proof -
  let ?E = "\<lfloor>log 2 \<bar>r\<bar>\<rfloor>"
  from assms(2) have e: "exponent r = - 1022"
    by (simp add: exponent_def)
  then show "quantum r = denorm_min"
    by (simp add: quantum_def)
  from assms(1) have a: "0 < \<bar>r\<bar>" by simp
  from assms(2) have "of_int ?E + 1 \<le> (- 1022 :: real)"
    by linarith
  then have "2 powr (of_int ?E + 1) \<le> (2::real) powr (- 1022)"
    by simp
  also have "(2::real) powr (- 1022) = 2 powr (52 + (- 1074))"
    by simp
  also have "\<dots> = 2 powr 52 * 2 powr (- 1074)"
    by (simp only: powr_add)
  also have "\<dots> = 2 ^ 52 * denorm_min"
    unfolding denorm_min_powr by simp
  finally have "2 powr (of_int ?E + 1) \<le> 2 ^ 52 * denorm_min" .
  with floor_log_bounds(2) [OF a] show "\<bar>r\<bar> < 2 ^ 52 * denorm_min"
    by simp
qed

lemma quantum_cases:
  assumes "r \<noteq> 0"
  shows "quantum r = denorm_min \<and> \<bar>r\<bar> < 2 ^ 52 * denorm_min \<or>
         2 ^ 52 * quantum r \<le> \<bar>r\<bar> \<and> \<bar>r\<bar> < 2 ^ 53 * quantum r"
  using quantum_normal [OF assms] quantum_subnormal [OF assms]
  by (cases "- 1022 \<le> \<lfloor>log 2 \<bar>r\<bar>\<rfloor>") auto

lemma ratio_less:
  assumes "r \<noteq> 0"
  shows "\<bar>r\<bar> / quantum r < 2 ^ 53"
proof -
  have "(2::real) ^ 52 * denorm_min \<le> 2 ^ 53 * denorm_min"
    using denorm_min_pos by simp
  with quantum_cases [OF assms] have "\<bar>r\<bar> < 2 ^ 53 * quantum r"
    by (auto simp del: power_numeral)
  then show ?thesis
    using quantum_pos [of r] by (simp add: pos_divide_less_eq del: power_numeral)
qed


lemma quantum_ge: "denorm_min \<le> quantum r"
proof -
  have "(1::real) \<le> 2 ^ nat (exponent r + 1022)"
    by simp
  then have "1 * denorm_min \<le> 2 ^ nat (exponent r + 1022) * denorm_min"
    using denorm_min_pos by (intro mult_right_mono) simp_all
  then show ?thesis
    by (simp add: quantum_def)
qed

lemma quantum_le:
  assumes "r \<noteq> 0"
  shows "quantum r = denorm_min \<or> 2 ^ 52 * quantum r \<le> \<bar>r\<bar>"
  using quantum_cases [OF assms] by blast

lemma quantum_minus [simp]: "quantum (- r) = quantum r"
  by (simp add: quantum_def exponent_def)

lemma magnitude_minus [simp]: "magnitude (- r) = magnitude r"
  by (simp add: magnitude_def)

lemma magnitude_nonneg: "0 \<le> magnitude r"
proof -
  have "0 \<le> \<bar>r\<bar> / quantum r"
    using quantum_pos [of r] by simp
  then have "0 \<le> round_half_even (\<bar>r\<bar> / quantum r)"
    by (rule round_half_even_nonneg)
  then show ?thesis
    unfolding magnitude_def using quantum_pos [of r] by simp
qed

lemma magnitude_le: "magnitude r \<le> \<bar>r\<bar> + quantum r / 2"
proof -
  have "of_int (round_half_even (\<bar>r\<bar> / quantum r)) * quantum r
      \<le> (\<bar>r\<bar> / quantum r + 1 / 2) * quantum r"
    using round_half_even_le [of "\<bar>r\<bar> / quantum r"] quantum_pos [of r]
    by (intro mult_right_mono) simp_all
  also have "\<dots> = \<bar>r\<bar> + quantum r / 2"
    using quantum_pos [of r] by (simp add: field_simps)
  finally show ?thesis
    by (simp add: magnitude_def)
qed

lemma magnitude_ge: "\<bar>r\<bar> - quantum r / 2 \<le> magnitude r"
proof -
  have "(\<bar>r\<bar> / quantum r - 1 / 2) * quantum r
      \<le> of_int (round_half_even (\<bar>r\<bar> / quantum r)) * quantum r"
    using round_half_even_ge [of "\<bar>r\<bar> / quantum r"] quantum_pos [of r]
    by (intro mult_right_mono) simp_all
  moreover have "(\<bar>r\<bar> / quantum r - 1 / 2) * quantum r = \<bar>r\<bar> - quantum r / 2"
    using quantum_pos [of r] by (simp add: field_simps)
  ultimately show ?thesis
    by (simp add: magnitude_def)
qed

lemma magnitude_grid: "\<exists>k::nat. magnitude r = of_nat k * denorm_min"
proof -
  let ?n = "round_half_even (\<bar>r\<bar> / quantum r)"
  have "0 \<le> \<bar>r\<bar> / quantum r"
    using quantum_pos [of r] by simp
  then have n: "0 \<le> ?n"
    by (rule round_half_even_nonneg)
  have "magnitude r = of_nat (nat ?n * 2 ^ nat (exponent r + 1022)) * denorm_min"
    using n by (simp add: magnitude_def quantum_def)
  then show ?thesis ..
qed


lemma representable_minus [simp]: "representable (- r) = representable r"
proof -
  have "representable (- r)" if "representable r" for r
  proof -
    from that obtain m e :: int where
      r: "r = of_int m * 2 powr of_int e" "\<bar>m\<bar> < 2 ^ 53" "- 1074 \<le> e" "\<bar>r\<bar> < max_bound"
      unfolding representable_def by blast
    have "- r = of_int (- m) * 2 powr of_int e \<and> \<bar>- m\<bar> < 2 ^ 53 \<and> - 1074 \<le> e"
      using r by simp
    then show ?thesis
      unfolding representable_def using r(4) by (metis abs_minus_cancel)
  qed
  from this [of r] this [of "- r"] show ?thesis by auto
qed

lemma representable_0 [simp]: "representable 0"
proof -
  have "(0::real) = of_int 0 * 2 powr of_int 0 \<and> \<bar>0::int\<bar> < 2 ^ 53 \<and> (- 1074 :: int) \<le> 0"
    by simp
  moreover have "\<bar>0::real\<bar> < max_bound"
    by (simp add: max_bound_def)
  ultimately show ?thesis
    unfolding representable_def by blast
qed

lemma representable_exponent:
  assumes "r = of_int m * 2 powr of_int e" and "\<bar>m\<bar> < 2 ^ 53" and "- 1074 \<le> e" and "r \<noteq> 0"
  shows "exponent r \<le> e + 52"
proof -
  from assms(4) have a: "0 < \<bar>r\<bar>" by simp
  have p53: "(2::real) ^ 53 = 2 powr 53" by simp
  have "\<bar>r\<bar> = of_int \<bar>m\<bar> * 2 powr of_int e"
    by (simp add: assms(1) abs_mult)
  also have "\<dots> < 2 ^ 53 * 2 powr of_int e"
  proof (rule mult_strict_right_mono)
    from assms(2) have "(of_int \<bar>m\<bar> :: real) < of_int (2 ^ 53)"
      by (simp only: of_int_less_iff)
    then show "(of_int \<bar>m\<bar> :: real) < 2 ^ 53" by simp
    show "(0::real) < 2 powr of_int e" by simp
  qed
  also have "\<dots> = 2 powr (53 + of_int e)"
    unfolding p53 by (simp only: powr_add)
  finally have "\<bar>r\<bar> < 2 powr (53 + of_int e)" .
  with floor_log_bounds(1) [OF a]
  have "(2::real) powr of_int \<lfloor>log 2 \<bar>r\<bar>\<rfloor> < 2 powr (53 + of_int e)"
    by linarith
  then have "(of_int \<lfloor>log 2 \<bar>r\<bar>\<rfloor> :: real) < 53 + of_int e"
    by simp
  then have "\<lfloor>log 2 \<bar>r\<bar>\<rfloor> \<le> e + 52"
    by linarith
  with assms(3) show ?thesis
    by (simp add: exponent_def)
qed

lemma magnitude_exact:
  assumes "representable r" and "r \<noteq> 0"
  shows "magnitude r = \<bar>r\<bar>"
proof -
  from assms(1) obtain m e :: int where
    r: "r = of_int m * 2 powr of_int e" "\<bar>m\<bar> < 2 ^ 53" "- 1074 \<le> e"
    unfolding representable_def by blast
  let ?t = "e + 52 - exponent r"
  from representable_exponent [OF r assms(2)] have t: "0 \<le> ?t" by simp
  have s: "of_int ?t + (of_int (exponent r) - 52) = (of_int e :: real)"
    by simp
  have "(2::real) powr of_int e = 2 powr (of_int ?t + (of_int (exponent r) - 52))"
    unfolding s ..
  also have "\<dots> = 2 powr of_int ?t * quantum r"
    unfolding quantum_powr by (simp only: powr_add)
  also have "\<dots> = 2 ^ nat ?t * quantum r"
    using two_powr_nat [OF t] by simp
  finally have e: "(2::real) powr of_int e = 2 ^ nat ?t * quantum r" .
  have "\<bar>r\<bar> = of_int \<bar>m\<bar> * 2 powr of_int e"
    by (simp add: r(1) abs_mult)
  then have a: "\<bar>r\<bar> = of_int (\<bar>m\<bar> * 2 ^ nat ?t) * quantum r"
    unfolding e by simp
  then have "\<bar>r\<bar> / quantum r = of_int (\<bar>m\<bar> * 2 ^ nat ?t)"
    using quantum_pos [of r] by simp
  then have "magnitude r = of_int (\<bar>m\<bar> * 2 ^ nat ?t) * quantum r"
    unfolding magnitude_def by (simp only: round_half_even_of_int)
  with a show ?thesis by simp
qed

lemma round_half_even_bound:
  assumes "x < 2 ^ 53"
  shows "round_half_even x \<le> 2 ^ 53"
proof -
  from round_half_even_le [of x] assms
  have "(of_int (round_half_even x) :: real) < 2 ^ 53 + 1 / 2"
    by linarith
  then have "(of_int (round_half_even x) :: real) < of_int (2 ^ 53 + 1)"
    by simp
  then have "round_half_even x < 2 ^ 53 + 1"
    by (simp only: of_int_less_iff)
  then show ?thesis by simp
qed

lemma magnitude_representable:
  assumes "r \<noteq> 0" and "magnitude r < max_bound"
  shows "representable (magnitude r)"
proof -
  let ?n = "round_half_even (\<bar>r\<bar> / quantum r)"
  have n0: "0 \<le> ?n"
    using quantum_pos [of r] by (intro round_half_even_nonneg) simp
  have n1: "?n \<le> 2 ^ 53"
    using ratio_less [OF assms(1)] by (rule round_half_even_bound)
  have e: "- 1074 \<le> exponent r - 52"
    by (simp add: exponent_def)
  have m: "magnitude r = of_int ?n * 2 powr of_int (exponent r - 52)"
    by (simp add: magnitude_def quantum_powr)
  have b: "\<bar>magnitude r\<bar> < max_bound"
    using assms(2) magnitude_nonneg [of r] by simp
  show ?thesis
  proof (cases "?n = 2 ^ 53")
    case False
    with n0 n1 have "\<bar>?n\<bar> < 2 ^ 53" by simp
    with m e b show ?thesis
      unfolding representable_def by blast
  next
    case True
    have s: "1 + (of_int (exponent r) - 52) = (of_int (exponent r - 51) :: real)"
      by simp
    have "magnitude r = 2 ^ 52 * (2 powr 1 * 2 powr (of_int (exponent r) - 52))"
      unfolding m True by simp
    also have "\<dots> = 2 ^ 52 * 2 powr of_int (exponent r - 51)"
      unfolding powr_add [symmetric] s ..
    finally have "magnitude r = of_int (2 ^ 52) * 2 powr of_int (exponent r - 51)"
      by simp
    moreover have "\<bar>2 ^ 52 :: int\<bar> < 2 ^ 53" by simp
    moreover have "- 1074 \<le> exponent r - 51"
      by (simp add: exponent_def)
    ultimately show ?thesis
      unfolding representable_def using b by blast
  qed
qed

lemma fl_0 [simp]: "fl 0 = Fin 0"
  by (simp add: fl_def)

lemma fl_exact: "representable r \<Longrightarrow> fl r = Fin r"
proof (cases "r = 0")
  case True
  then show ?thesis by simp
next
  case False
  assume r: "representable r"
  then have "magnitude r = \<bar>r\<bar>"
    using False by (rule magnitude_exact)
  moreover from r have "\<bar>r\<bar> < max_bound"
    by (simp add: representable_def)
  ultimately show ?thesis
    using False by (simp add: fl_def)
qed

lemma fl_pos_cases:
  assumes "0 < r"
  shows "fl r = Infinity \<or> (fl r = Fin (magnitude r) \<and> magnitude r < max_bound)"
  using assms by (simp add: fl_def)

lemma fl_pos_finite: "0 < r \<Longrightarrow> magnitude r < max_bound \<Longrightarrow> fl r = Fin (magnitude r)"
  by (simp add: fl_def)

lemma fl_neg_cases:
  assumes "r < 0"
  shows "fl r = NegInfinity \<or> (fl r = NegZero \<and> magnitude r = 0) \<or>
         (fl r = Fin (- magnitude r) \<and> 0 < magnitude r \<and> magnitude r < max_bound)"
  using assms magnitude_nonneg [of r] by (simp add: fl_def)

lemma fl_not_NaN [simp]: "fl r \<noteq> NaN"
  by (simp add: fl_def)

lemma isNaN_fl [simp]: "\<not> isNaN (fl r)"
  by (simp add: fl_def)

lemma is_double_fl [simp]: "is_double (fl r)"
proof (cases "r = 0")
  case True
  then show ?thesis by simp
next
  case False
  show ?thesis
  proof (cases "magnitude r < max_bound")
    case True
    with False have "representable (magnitude r)"
      by (rule magnitude_representable)
    then show ?thesis
      by (simp add: fl_def)
  next
    case False
    then show ?thesis
      by (simp add: fl_def)
  qed
qed

lemma quantum_le_max:
  assumes "r \<noteq> 0"
  shows "quantum r \<le> max denorm_min \<bar>r\<bar>"
proof -
  have "quantum r \<le> 2 ^ 52 * quantum r"
    using quantum_pos [of r] by simp
  with quantum_le [OF assms] show ?thesis
    by auto
qed

lemma magnitude_near:
  assumes "denorm_min \<le> \<bar>r\<bar>"
  shows "\<bar>r\<bar> / 2 \<le> magnitude r" and "magnitude r \<le> 3 * \<bar>r\<bar> / 2"
proof -
  from assms denorm_min_pos have "r \<noteq> 0" by auto
  from quantum_le_max [OF this] assms have "quantum r \<le> \<bar>r\<bar>"
    by simp
  with magnitude_ge [of r] magnitude_le [of r]
  show "\<bar>r\<bar> / 2 \<le> magnitude r" and "magnitude r \<le> 3 * \<bar>r\<bar> / 2"
    by simp_all
qed

lemma magnitude_small:
  assumes "\<bar>r\<bar> \<le> b" and "denorm_min \<le> b"
  shows "magnitude r \<le> 3 * b / 2"
proof (cases "r = 0")
  case True
  then have "magnitude r = 0"
    by (simp add: magnitude_def)
  with assms(2) denorm_min_pos show ?thesis by simp
next
  case False
  from quantum_le_max [OF this] assms have "quantum r \<le> b"
    by simp
  with magnitude_le [of r] assms(1) show ?thesis
    by simp
qed

lemma fl_near:
  assumes "denorm_min \<le> r" and "r < 2 ^ 1023"
  shows "\<exists>v. fl r = Fin v \<and> r / 2 \<le> v \<and> v \<le> 3 * r / 2 \<and> representable v"
proof -
  from assms(1) denorm_min_pos have r: "0 < r" by simp
  with assms(1) have a: "denorm_min \<le> \<bar>r\<bar>" by simp
  from magnitude_near [OF a] r
  have m: "r / 2 \<le> magnitude r" "magnitude r \<le> 3 * r / 2"
    by simp_all
  from m(2) assms(2) have b: "magnitude r < max_bound"
    by (simp add: max_bound_def)
  with r have "representable (magnitude r)"
    by (intro magnitude_representable) simp_all
  moreover from r b have "fl r = Fin (magnitude r)"
    by (simp add: fl_def)
  ultimately show ?thesis
    using m by blast
qed

lemma fl_small:
  assumes "0 < r" and "r \<le> b" and "denorm_min \<le> b" and "b < 2 ^ 1023"
  shows "\<exists>v. fl r = Fin v \<and> 0 \<le> v \<and> v \<le> 3 * b / 2"
proof -
  from assms(1,2) have "\<bar>r\<bar> \<le> b" by simp
  from magnitude_small [OF this assms(3)] have m: "magnitude r \<le> 3 * b / 2" .
  with assms(4) have "magnitude r < max_bound"
    by (simp add: max_bound_def)
  with assms(1) have "fl r = Fin (magnitude r)"
    by (simp add: fl_def)
  with m magnitude_nonneg [of r] show ?thesis
    by blast
qed

lemma representable_of_int:
  assumes "\<bar>m\<bar> < 2 ^ 53"
  shows "representable (of_int m)"
proof -
  have "(of_int m :: real) = of_int m * 2 powr of_int 0"
    by simp
  moreover have "(- 1074 :: int) \<le> 0" by simp
  moreover have "\<bar>of_int m :: real\<bar> < max_bound"
  proof -
    from assms have "(of_int \<bar>m\<bar> :: real) < of_int (2 ^ 53)"
      by (simp only: of_int_less_iff)
    then show ?thesis
      by (simp add: max_bound_def)
  qed
  ultimately show ?thesis
    unfolding representable_def using assms by blast
qed

lemma representable_numeral: "numeral n < (2::int) ^ 53 \<Longrightarrow> representable (numeral n)"
  using representable_of_int [of "numeral n"] by simp

lemma representable_1 [simp]: "representable 1"
  using representable_of_int [of 1] by simp

lemma representable_half [simp]: "representable (1 / 2)"
proof -
  have "(1 / 2 :: real) = of_int 1 * 2 powr of_int (- 1)"
    by (simp add: powr_minus inverse_eq_divide)
  moreover have "\<bar>1::int\<bar> < 2 ^ 53" and "(- 1074 :: int) \<le> - 1"
    by simp_all
  moreover have "\<bar>1 / 2 :: real\<bar> < max_bound"
    by (simp add: max_bound_def)
  ultimately show ?thesis
    unfolding representable_def by blast
qed

lemma fl_numeral [simp]: "numeral n < (2::int) ^ 53 \<Longrightarrow> fl (numeral n) = Fin (numeral n)"
  by (intro fl_exact representable_numeral)

lemma fl_neg_numeral [simp]:
  "numeral n < (2::int) ^ 53 \<Longrightarrow> fl (- numeral n) = Fin (- numeral n)"
  by (intro fl_exact) (simp add: representable_numeral)

lemma fl_1 [simp]: "fl 1 = Fin 1"
  by (intro fl_exact) simp

lemma fl_neg_1 [simp]: "fl (- 1) = Fin (- 1)"
  by (intro fl_exact) simp

lemma fl_half [simp]: "fl (1 / 2) = Fin (1 / 2)"
  by (intro fl_exact) simp

section \<open>Properties of the engine's operations\<close>

lemmas js_arith =
  js_add_def js_sub_def js_mul_def js_div_def js_lt_def js_eq_def js_ne_def js_le_def
  js_gt_def js_ge_def signed_zero_def signed_infinity_def

lemma js_eq_zero_iff: "js_eq v (Fin 0) \<longleftrightarrow> v = Fin 0 \<or> v = NegZero"
  by (cases v) (simp_all add: js_eq_def)

lemma js_ge_Fin: "js_ge (Fin x) (Fin y) \<longleftrightarrow> y \<le> x"
  by (auto simp add: js_ge_def js_le_def js_lt_def js_eq_def)

lemma js_gt_Fin: "js_gt (Fin x) (Fin y) \<longleftrightarrow> y < x"
  by (simp add: js_gt_def js_lt_def)

lemma Math_max_Fin: "Math_max (Fin x) (Fin y) = Fin (max x y)"
  by (simp add: Math_max_def js_gt_Fin max_def)

lemma isNaN_iff: "isNaN v \<longleftrightarrow> v = NaN"
  by (cases v) simp_all

lemma isNaN_Math_log:
  "isNaN (Math_log v) \<longleftrightarrow> v = NaN \<or> v = NegInfinity \<or> (\<exists>x. v = Fin x \<and> x < 0)"
  by (cases v) simp_all

lemma isNaN_Math_exp: "isNaN (Math_exp v) \<longleftrightarrow> isNaN v"
  by (cases v) simp_all

lemma js_add_Fin: "js_add (Fin a) (Fin b) = fl (a + b)"
  by (simp add: js_add_def)

lemma js_mul_Fin: "a * b \<noteq> 0 \<Longrightarrow> js_mul (Fin a) (Fin b) = fl (a * b)"
  by (simp add: js_mul_def)

lemma js_div_Fin: "a \<noteq> 0 \<Longrightarrow> b \<noteq> 0 \<Longrightarrow> js_div (Fin a) (Fin b) = fl (a / b)"
  by (simp add: js_div_def)

text \<open>
  Claim C4. \<open>aad_div\<close> throws "Division by 0" exactly when the value of the second node
  is 0 (either zero: \<open>-0 == 0\<close>); the test comes first, so the tape is then unchanged.
  Otherwise it pushes and returns a node with value \<open>a.value / b.value\<close> and local
  derivatives \<open>1 / b.value\<close> and \<open>-a.value / (b.value * b.value)\<close>, each operation
  rounded: on finite non-zero values the rounded quotient, the rounded reciprocal, and
  \<open>-a.value\<close> over the rounded square (which is 0 when the square underflows).
\<close>

theorem aad_div_DivisionByZero:
  assumes "node_at s h1 = Some a" and "node_at s h2 = Some b"
  shows "(fst (aad_div h1 h2 s) = Inl Division_by_0 \<longleftrightarrow> val b = Fin 0 \<or> val b = NegZero) \<and>
         (val b = Fin 0 \<or> val b = NegZero \<longrightarrow> aad_div h1 h2 s = (Inl Division_by_0, s)) \<and>
         (val b \<noteq> Fin 0 \<and> val b \<noteq> NegZero \<longrightarrow>
            aad_div h1 h2 s =
              (Inr (length s),
               s @ [\<lparr>val = js_div (val a) (val b), parents = [h1, h2],
                     ddparents = [js_div (Fin 1) (val b),
                                  js_div (js_neg (val a)) (js_mul (val b) (val b))],
                     derivative = None\<rparr>])) \<and>
         (\<forall>x y. val a = Fin x \<and> val b = Fin y \<and> x \<noteq> 0 \<and> y \<noteq> 0 \<longrightarrow>
            aad_div h1 h2 s =
              (Inr (length s),
               s @ [\<lparr>val = fl (x / y), parents = [h1, h2],
                     ddparents = [fl (1 / y), js_div (Fin (- x)) (fl (y * y))],
                     derivative = None\<rparr>]))"
  using assms
  by (auto simp add: aad_div_def push_def js_eq_zero_iff js_div_Fin js_mul_Fin)

theorem aad_div_witness:
  "aad_div 0 1 [const_node (Fin 1), const_node (Fin 0)] =
     (Inl Division_by_0, [const_node (Fin 1), const_node (Fin 0)]) \<and>
   aad_div 0 1 [const_node (Fin 1), const_node NegZero] =
     (Inl Division_by_0, [const_node (Fin 1), const_node NegZero]) \<and>
   aad_div 0 1 [const_node (Fin 4), const_node (Fin 2)] =
     (Inr 2, [const_node (Fin 4), const_node (Fin 2),
              \<lparr>val = Fin 2, parents = [0, 1], ddparents = [Fin (1 / 2), Fin (- 1)],
               derivative = None\<rparr>])"
  using aad_div_DivisionByZero [of "[const_node (Fin 1), const_node (Fin 0)]" 0 "const_node (Fin 1)" 1 "const_node (Fin 0)"]
    aad_div_DivisionByZero [of "[const_node (Fin 1), const_node NegZero]" 0 "const_node (Fin 1)" 1 "const_node NegZero"]
    aad_div_DivisionByZero [of "[const_node (Fin 4), const_node (Fin 2)]" 0 "const_node (Fin 4)" 1 "const_node (Fin 2)"]
  by (simp add: node_at_def const_node_def js_arith)

text \<open>
  Claim C7. \<open>aad_max\<close> pushes and returns a node with value
  \<open>Math.max(a.value, b.value)\<close> and local derivatives (1, 0) when
  \<open>a.value >= b.value\<close> and (0, 1) otherwise: a tie goes to the first argument.
\<close>

theorem aad_max_tie_break:
  assumes "node_at s h1 = Some a" and "node_at s h2 = Some b"
  shows "aad_max h1 h2 s =
           (Inr (length s),
            s @ [\<lparr>val = Math_max (val a) (val b), parents = [h1, h2],
                  ddparents = (if js_ge (val a) (val b) then [Fin 1, Fin 0] else [Fin 0, Fin 1]),
                  derivative = None\<rparr>]) \<and>
         (\<forall>x y. val a = Fin x \<and> val b = Fin y \<longrightarrow>
            aad_max h1 h2 s =
              (Inr (length s),
               s @ [\<lparr>val = Fin (max x y), parents = [h1, h2],
                     ddparents = (if x \<ge> y then [Fin 1, Fin 0] else [Fin 0, Fin 1]),
                     derivative = None\<rparr>]))"
  using assms by (simp add: aad_max_def push_def js_ge_Fin Math_max_Fin)

theorem aad_max_witness:
  "aad_max 0 1 [const_node (Fin 3), const_node (Fin 3)] =
     (Inr 2, [const_node (Fin 3), const_node (Fin 3),
              \<lparr>val = Fin 3, parents = [0, 1], ddparents = [Fin 1, Fin 0],
               derivative = None\<rparr>])"
  using aad_max_tie_break [of "[const_node (Fin 3), const_node (Fin 3)]" 0 "const_node (Fin 3)" 1 "const_node (Fin 3)"]
  by (simp add: node_at_def const_node_def js_ge_Fin Math_max_Fin)

text \<open>
  Claim C3, as the specification states it, fails at 0: \<open>Math.log(0)\<close> is
  \<open>-Infinity\<close>, which is not \<open>NaN\<close>, so \<open>aad_log\<close> of a constant 0 returns a node.
\<close>

theorem aad_log_zero_counterexample:
  "aad_log 0 [const_node (Fin 0)] =
     (Inr 1, [const_node (Fin 0),
              \<lparr>val = NegInfinity, parents = [0], ddparents = [Infinity], derivative = None\<rparr>])"
  by (simp add: aad_log_def node_at_def const_node_def push_def js_div_def signed_infinity_def)

text \<open>
  Claim C3, amended. \<open>aad_log\<close> throws exactly when \<open>Math.log\<close> of the value is
  \<open>NaN\<close>, that is when the value is negative, \<open>-Infinity\<close> or \<open>NaN\<close>, and then the
  tape is unchanged. Otherwise it pushes and returns a node with value
  \<open>Math.log(a.value)\<close> and local derivative \<open>1 / a.value\<close>: on a positive value the
  logarithm and the rounded reciprocal (\<open>Infinity\<close> where the reciprocal overflows), on
  the value 0 \<open>-Infinity\<close> and \<open>Infinity\<close>, on \<open>-0\<close> \<open>-Infinity\<close> and
  \<open>-Infinity\<close>.
\<close>

theorem aad_log_domain:
  assumes "node_at s h = Some a"
  shows "(fst (aad_log h s) = Inl (NAN_from_log (val a)) \<longleftrightarrow>
            val a = NaN \<or> val a = NegInfinity \<or> (\<exists>x. val a = Fin x \<and> x < 0)) \<and>
         (isNaN (Math_log (val a)) \<longrightarrow> aad_log h s = (Inl (NAN_from_log (val a)), s)) \<and>
         (\<not> isNaN (Math_log (val a)) \<longrightarrow>
            aad_log h s =
              (Inr (length s),
               s @ [\<lparr>val = Math_log (val a), parents = [h],
                     ddparents = [js_div (Fin 1) (val a)], derivative = None\<rparr>])) \<and>
         (\<forall>x. val a = Fin x \<and> 0 < x \<longrightarrow>
            aad_log h s =
              (Inr (length s),
               s @ [\<lparr>val = Math_log (Fin x), parents = [h], ddparents = [fl (1 / x)],
                     derivative = None\<rparr>])) \<and>
         (val a = Fin 0 \<longrightarrow>
            aad_log h s =
              (Inr (length s),
               s @ [\<lparr>val = NegInfinity, parents = [h], ddparents = [Infinity],
                     derivative = None\<rparr>])) \<and>
         (val a = NegZero \<longrightarrow>
            aad_log h s =
              (Inr (length s),
               s @ [\<lparr>val = NegInfinity, parents = [h], ddparents = [NegInfinity],
                     derivative = None\<rparr>]))"
  using assms
  by (auto simp add: aad_log_def push_def Let_def isNaN_Math_log js_div_def signed_infinity_def)

theorem aad_log_witness:
  "aad_log 0 [const_node (Fin (- 1))] = (Inl (NAN_from_log (Fin (- 1))), [const_node (Fin (- 1))]) \<and>
   aad_log 0 [const_node (Fin 1)] =
     (Inr 1, [const_node (Fin 1),
              \<lparr>val = Fin 0, parents = [0], ddparents = [Fin 1], derivative = None\<rparr>]) \<and>
   aad_log 0 [const_node NegZero] =
     (Inr 1, [const_node NegZero,
              \<lparr>val = NegInfinity, parents = [0], ddparents = [NegInfinity], derivative = None\<rparr>])"
  using aad_log_domain [of "[const_node (Fin (- 1))]" 0 "const_node (Fin (- 1))"]
    aad_log_domain [of "[const_node (Fin 1)]" 0 "const_node (Fin 1)"]
    aad_log_domain [of "[const_node NegZero]" 0 "const_node NegZero"]
  by (simp add: node_at_def const_node_def js_arith)

text \<open>
  Claim C6. When the value of the base is 0 (either zero), \<open>aad_pow\<close> pushes and returns
  a constant 0 (no parents, no local derivatives); otherwise it is \<open>aad_exp\<close> of
  \<open>aad_mul\<close> of the exponent and \<open>aad_log\<close> of the base. On a positive base, where
  the product of the exponent and the logarithm is not \<open>NaN\<close>, this pushes three nodes:
  the logarithm of the base, its product with the exponent, and the exponential of the
  product, which is returned.
\<close>

theorem aad_pow_short_circuit:
  assumes "node_at s h1 = Some a" and "node_at s h2 = Some b"
  shows "(val a = Fin 0 \<or> val a = NegZero \<longrightarrow>
            aad_pow h1 h2 s =
              (Inr (length s),
               s @ [\<lparr>val = Fin 0, parents = [], ddparents = [], derivative = None\<rparr>])) \<and>
         (val a \<noteq> Fin 0 \<and> val a \<noteq> NegZero \<longrightarrow>
            aad_pow h1 h2 s =
              (case aad_log h1 s of
                 (Inl e, s1) \<Rightarrow> (Inl e, s1)
               | (Inr l, s1) \<Rightarrow>
                   (case aad_mul h2 l s1 of
                      (Inl e, s2) \<Rightarrow> (Inl e, s2)
                    | (Inr m, s2) \<Rightarrow> aad_exp m s2))) \<and>
         (\<forall>x. val a = Fin x \<and> 0 < x \<and> \<not> isNaN (js_mul (val b) (Math_log (Fin x))) \<longrightarrow>
            aad_pow h1 h2 s =
              (Inr (length s + 2),
               s @ [\<lparr>val = Math_log (Fin x), parents = [h1], ddparents = [js_div (Fin 1) (Fin x)],
                     derivative = None\<rparr>,
                    \<lparr>val = js_mul (val b) (Math_log (Fin x)), parents = [h2, length s],
                     ddparents = [Math_log (Fin x), val b], derivative = None\<rparr>,
                    \<lparr>val = Math_exp (js_mul (val b) (Math_log (Fin x))),
                     parents = [length s + 1],
                     ddparents = [Math_exp (js_mul (val b) (Math_log (Fin x)))],
                     derivative = None\<rparr>]))"
proof (intro conjI impI allI)
  assume "val a = Fin 0 \<or> val a = NegZero"
  with assms show "aad_pow h1 h2 s =
      (Inr (length s), s @ [\<lparr>val = Fin 0, parents = [], ddparents = [], derivative = None\<rparr>])"
    by (auto simp add: aad_pow_def aad_const_def const_node_def push_def js_eq_zero_iff)
next
  assume "val a \<noteq> Fin 0 \<and> val a \<noteq> NegZero"
  with assms show "aad_pow h1 h2 s =
      (case aad_log h1 s of
         (Inl e, s1) \<Rightarrow> (Inl e, s1)
       | (Inr l, s1) \<Rightarrow>
           (case aad_mul h2 l s1 of
              (Inl e, s2) \<Rightarrow> (Inl e, s2)
            | (Inr m, s2) \<Rightarrow> aad_exp m s2))"
    by (simp add: aad_pow_def js_eq_zero_iff)
next
  fix x
  assume x: "val a = Fin x \<and> 0 < x \<and> \<not> isNaN (js_mul (val b) (Math_log (Fin x)))"
  from assms have h: "h1 < length s" "h2 < length s" "s ! h1 = a" "s ! h2 = b"
    by (auto simp add: node_at_def split: if_splits)
  from x have z: "\<not> js_eq (val a) (Fin 0)"
    by (simp add: js_eq_zero_iff)
  have l: "aad_log h1 s =
      (Inr (length s),
       s @ [\<lparr>val = Math_log (Fin x), parents = [h1], ddparents = [js_div (Fin 1) (Fin x)],
             derivative = None\<rparr>])"
    using assms x by (simp add: aad_log_def push_def Let_def)
  let ?s1 = "s @ [\<lparr>val = Math_log (Fin x), parents = [h1], ddparents = [js_div (Fin 1) (Fin x)],
             derivative = None\<rparr>]"
  have m: "aad_mul h2 (length s) ?s1 =
      (Inr (length s + 1),
       ?s1 @ [\<lparr>val = js_mul (val b) (Math_log (Fin x)), parents = [h2, length s],
               ddparents = [Math_log (Fin x), val b], derivative = None\<rparr>])"
    using h by (simp add: aad_mul_def node_at_def nth_append push_def)
  let ?s2 = "?s1 @ [\<lparr>val = js_mul (val b) (Math_log (Fin x)), parents = [h2, length s],
               ddparents = [Math_log (Fin x), val b], derivative = None\<rparr>]"
  have e: "aad_exp (length s + 1) ?s2 =
      (Inr (length s + 2),
       ?s2 @ [\<lparr>val = Math_exp (js_mul (val b) (Math_log (Fin x))),
               parents = [length s + 1],
               ddparents = [Math_exp (js_mul (val b) (Math_log (Fin x)))],
               derivative = None\<rparr>])"
    using x by (auto simp add: aad_exp_def node_at_def nth_append push_def Let_def isNaN_Math_exp)
  show "aad_pow h1 h2 s =
      (Inr (length s + 2),
       s @ [\<lparr>val = Math_log (Fin x), parents = [h1], ddparents = [js_div (Fin 1) (Fin x)],
             derivative = None\<rparr>,
            \<lparr>val = js_mul (val b) (Math_log (Fin x)), parents = [h2, length s],
             ddparents = [Math_log (Fin x), val b], derivative = None\<rparr>,
            \<lparr>val = Math_exp (js_mul (val b) (Math_log (Fin x))),
             parents = [length s + 1],
             ddparents = [Math_exp (js_mul (val b) (Math_log (Fin x)))],
             derivative = None\<rparr>])"
    using assms(1) z l m e by (simp add: aad_pow_def)
qed

theorem aad_pow_witness:
  "aad_pow 0 1 [const_node (Fin 0), const_node (Fin 2)] =
     (Inr 2, [const_node (Fin 0), const_node (Fin 2),
              \<lparr>val = Fin 0, parents = [], ddparents = [], derivative = None\<rparr>]) \<and>
   aad_pow 0 1 [const_node (Fin 1), const_node (Fin 2)] =
     (Inr 4, [const_node (Fin 1), const_node (Fin 2),
              \<lparr>val = Fin 0, parents = [0], ddparents = [Fin 1], derivative = None\<rparr>,
              \<lparr>val = Fin 0, parents = [1, 2], ddparents = [Fin 0, Fin 2], derivative = None\<rparr>,
              \<lparr>val = Fin 1, parents = [3], ddparents = [Fin 1], derivative = None\<rparr>])"
  using aad_pow_short_circuit [of "[const_node (Fin 0), const_node (Fin 2)]" 0 "const_node (Fin 0)" 1 "const_node (Fin 2)"]
    aad_pow_short_circuit [of "[const_node (Fin 1), const_node (Fin 2)]" 0 "const_node (Fin 1)" 1 "const_node (Fin 2)"]
  by (auto simp add: node_at_def const_node_def eval_nat_numeral js_arith)

lemma wf_tape_snoc:
  "wf_tape s \<Longrightarrow> wf_node (length s) n \<Longrightarrow> wf_tape (s @ [n])"
  by (auto simp add: wf_tape_def nth_append less_Suc_eq)

lemma wf_push: "wf_tape s \<Longrightarrow> wf_node (length s) n \<Longrightarrow> wf_tape (snd (push n s))"
  by (simp add: push_def wf_tape_snoc)

lemma wf_aad_const: "wf_tape s \<Longrightarrow> wf_tape (snd (aad_const c s))"
  by (simp add: aad_const_def const_node_def wf_push wf_node_def)

lemma wf_aad_add: "wf_tape s \<Longrightarrow> wf_tape (snd (aad_add a b s))"
  by (auto simp add: aad_add_def node_at_def wf_push wf_node_def split: option.splits if_splits)

lemma wf_aad_sub: "wf_tape s \<Longrightarrow> wf_tape (snd (aad_sub a b s))"
  by (auto simp add: aad_sub_def node_at_def wf_push wf_node_def split: option.splits if_splits)

lemma wf_aad_mul: "wf_tape s \<Longrightarrow> wf_tape (snd (aad_mul a b s))"
  by (auto simp add: aad_mul_def node_at_def wf_push wf_node_def split: option.splits if_splits)

lemma wf_aad_div: "wf_tape s \<Longrightarrow> wf_tape (snd (aad_div a b s))"
  by (auto simp add: aad_div_def node_at_def wf_push wf_node_def split: option.splits if_splits)

lemma wf_aad_max: "wf_tape s \<Longrightarrow> wf_tape (snd (aad_max a b s))"
  by (auto simp add: aad_max_def node_at_def wf_push wf_node_def split: option.splits if_splits)

lemma wf_aad_exp: "wf_tape s \<Longrightarrow> wf_tape (snd (aad_exp a s))"
  by (auto simp add: aad_exp_def node_at_def wf_push wf_node_def Let_def split: option.splits if_splits)

lemma wf_aad_log: "wf_tape s \<Longrightarrow> wf_tape (snd (aad_log a s))"
  by (auto simp add: aad_log_def node_at_def wf_push wf_node_def Let_def split: option.splits if_splits)

lemma aad_pow_snd:
  "snd (aad_pow a b s) = s \<or>
   snd (aad_pow a b s) = snd (aad_const (Fin 0) s) \<or>
   snd (aad_pow a b s) = snd (aad_log a s) \<or>
   (\<exists>l. snd (aad_pow a b s) = snd (aad_mul b l (snd (aad_log a s)))) \<or>
   (\<exists>l m. snd (aad_pow a b s) = snd (aad_exp m (snd (aad_mul b l (snd (aad_log a s))))))"
proof (cases "node_at s a")
  case None
  then show ?thesis by (simp add: aad_pow_def)
next
  case (Some n1)
  show ?thesis
  proof (cases "js_eq (val n1) (Fin 0)")
    case True
    with Some show ?thesis by (simp add: aad_pow_def)
  next
    case False
    obtain r1 s1 where l: "aad_log a s = (r1, s1)" by (cases "aad_log a s")
    show ?thesis
    proof (cases r1)
      case (Inl e)
      with Some False l show ?thesis by (simp add: aad_pow_def)
    next
      case (Inr lh)
      obtain r2 s2 where m: "aad_mul b lh s1 = (r2, s2)" by (cases "aad_mul b lh s1")
      have m': "snd (aad_mul b lh (snd (aad_log a s))) = s2" using l m by simp
      show ?thesis
      proof (cases r2)
        case (Inl e)
        have "snd (aad_pow a b s) = s2"
          using Some False l Inr m Inl by (simp add: aad_pow_def)
        with m' show ?thesis by metis
      next
        case mh: (Inr mhh)
        have "snd (aad_pow a b s) = snd (aad_exp mhh s2)"
          using Some False l Inr m mh by (simp add: aad_pow_def)
        with m' show ?thesis by metis
      qed
    qed
  qed
qed

lemma wf_aad_pow:
  assumes "wf_tape s"
  shows "wf_tape (snd (aad_pow a b s))"
proof -
  have l: "wf_tape (snd (aad_log a s))"
    using assms by (rule wf_aad_log)
  have m: "wf_tape (snd (aad_mul b l' (snd (aad_log a s))))" for l'
    using l by (rule wf_aad_mul)
  have e: "wf_tape (snd (aad_exp m' (snd (aad_mul b l' (snd (aad_log a s))))))" for l' m'
    using m by (rule wf_aad_exp)
  have c: "wf_tape (snd (aad_const (Fin 0) s))"
    using assms by (rule wf_aad_const)
  from aad_pow_snd [of a b s] assms l m e c show ?thesis
    by metis
qed

lemma wf_run: "wf_tape s \<Longrightarrow> wf_tape (snd (run c s))"
  by (cases c)
    (simp_all add: wf_aad_const wf_aad_add wf_aad_sub wf_aad_mul wf_aad_div wf_aad_exp
      wf_aad_pow wf_aad_max wf_aad_log)

lemma wf_fold_run: "wf_tape s \<Longrightarrow> wf_tape (fold (\<lambda>c s. snd (run c s)) cs s)"
  by (induction cs arbitrary: s) (simp_all add: wf_run)

lemma extends_refl: "extends s s"
  by (simp add: extends_def)

lemma extends_trans: "extends s s' \<Longrightarrow> extends s' s'' \<Longrightarrow> extends s s''"
  by (auto simp add: extends_def)

lemma extends_push: "extends s (snd (push n s))"
  by (simp add: push_def extends_def)

lemma extends_aad_const: "extends s (snd (aad_const c s))"
  by (simp add: aad_const_def extends_push)

lemma extends_aad_add: "extends s (snd (aad_add a b s))"
  by (simp add: aad_add_def extends_push extends_refl split: option.split)

lemma extends_aad_sub: "extends s (snd (aad_sub a b s))"
  by (simp add: aad_sub_def extends_push extends_refl split: option.split)

lemma extends_aad_mul: "extends s (snd (aad_mul a b s))"
  by (simp add: aad_mul_def extends_push extends_refl split: option.split)

lemma extends_aad_div: "extends s (snd (aad_div a b s))"
  by (simp add: aad_div_def extends_push extends_refl split: option.split)

lemma extends_aad_max: "extends s (snd (aad_max a b s))"
  by (simp add: aad_max_def extends_push extends_refl split: option.split)

lemma extends_aad_exp: "extends s (snd (aad_exp a s))"
  by (simp add: aad_exp_def Let_def extends_push extends_refl split: option.split)

lemma extends_aad_log: "extends s (snd (aad_log a s))"
  by (simp add: aad_log_def Let_def extends_push extends_refl split: option.split)

lemma extends_aad_pow: "extends s (snd (aad_pow a b s))"
proof -
  have l: "extends s (snd (aad_log a s))"
    by (rule extends_aad_log)
  have m: "extends s (snd (aad_mul b l' (snd (aad_log a s))))" for l'
    using l extends_aad_mul by (rule extends_trans)
  have e: "extends s (snd (aad_exp m' (snd (aad_mul b l' (snd (aad_log a s))))))" for l' m'
    using m extends_aad_exp by (rule extends_trans)
  from aad_pow_snd [of a b s] l m e extends_refl [of s] extends_aad_const [of s "Fin 0"]
  show ?thesis by metis
qed

lemma extends_run: "extends s (snd (run c s))"
  by (cases c)
    (simp_all add: extends_aad_const extends_aad_add extends_aad_sub extends_aad_mul
      extends_aad_div extends_aad_exp extends_aad_pow extends_aad_max extends_aad_log)

lemma wf_tape_Nil: "wf_tape []" by (simp add: wf_tape_def)

text \<open>
  Claim C8. Every tape that a sequence of engine operations builds after \<open>aad_begin\<close>
  is well-formed: each node has as many local derivatives as parents, and each of its
  parents is at a strictly earlier position. Each single operation, whether it returns
  or throws, keeps a well-formed tape well-formed and only appends to it.
\<close>

theorem engine_keeps_tape_well_formed:
  "wf_tape (session cs) \<and>
   (wf_tape s \<longrightarrow> wf_tape (snd (run c s)) \<and> (\<exists>new. snd (run c s) = s @ new)) \<and>
   (\<forall>i < length (session cs).
      length (parents (session cs ! i)) = length (ddparents (session cs ! i)) \<and>
      (\<forall>p \<in> set (parents (session cs ! i)). p < i))"
proof -
  have w: "wf_tape (session cs)"
    unfolding session_def aad_begin_def by (rule wf_fold_run) (rule wf_tape_Nil)
  have n: "length (parents (session cs ! i)) = length (ddparents (session cs ! i)) \<and>
      (\<forall>p \<in> set (parents (session cs ! i)). p < i)" if "i < length (session cs)" for i
  proof -
    from w that have "wf_node i (session cs ! i)"
      unfolding wf_tape_def by blast
    then show ?thesis
      unfolding wf_node_def list_all_iff by blast
  qed
  have e: "\<exists>new. snd (run c s) = s @ new"
    using extends_run [of s c] unfolding extends_def .
  from w n e wf_run [of s c] show ?thesis
    by blast
qed

theorem engine_keeps_tape_well_formed_witness:
  "wf_tape (session [Const (Fin 2), Const (Fin 3), Mul 0 1]) \<and>
   wf_tape (snd (run (Log 2) (session [Const (Fin 2), Const (Fin 3), Mul 0 1]))) \<and>
   parents (session [Const (Fin 2), Const (Fin 3), Mul 0 1] ! 2) = [0, 1] \<and>
   length (parents (session [Const (Fin 2), Const (Fin 3), Mul 0 1] ! 2)) =
     length (ddparents (session [Const (Fin 2), Const (Fin 3), Mul 0 1] ! 2))"
proof -
  let ?cs = "[Const (Fin 2), Const (Fin 3), Mul 0 1]"
  note t = engine_keeps_tape_well_formed [of ?cs "session ?cs" "Log 2"]
  have s: "session ?cs =
      [const_node (Fin 2), const_node (Fin 3),
       \<lparr>val = Fin 6, parents = [0, 1], ddparents = [Fin 3, Fin 2], derivative = None\<rparr>]"
    by (simp add: session_def aad_begin_def aad_const_def aad_mul_def push_def node_at_def
        const_node_def js_arith)
  have w: "wf_tape (session ?cs)"
    using t by (rule conjunct1)
  have r: "wf_tape (snd (run (Log 2) (session ?cs)))"
    using t w by blast
  have "(2::nat) < length (session ?cs)"
    unfolding s by simp
  with t have "length (parents (session ?cs ! 2)) = length (ddparents (session ?cs ! 2))"
    by blast
  moreover have "parents (session ?cs ! 2) = [0, 1]"
    unfolding s by simp
  ultimately show ?thesis
    using w r by blast
qed

section \<open>Properties of the vector utilities\<close>

lemma vec_equal_loop_iff:
  "length v1 = length v2 \<Longrightarrow>
     vec_equal_loop v1 v2 \<longleftrightarrow> (\<forall>i < length v1. js_eq (v1 ! i) (v2 ! i))"
proof (induction v1 v2 rule: list_induct2)
  case Nil
  then show ?case by simp
next
  case (Cons x xs y ys)
  then show ?case by (auto simp add: js_ne_def less_Suc_eq_0_disj)
qed

text \<open>
  Claim C9. On vectors of different lengths \<open>vec_add\<close> throws "unequal vector sizes"
  and \<open>vec_equal\<close> returns false; on vectors of one length \<open>vec_add\<close> returns the
  element-wise sum and \<open>vec_equal\<close> is true exactly when every pair of corresponding
  elements is equal under \<open>==\<close>.
\<close>

theorem vec_length_mismatch:
  "(length v1 \<noteq> length v2 \<longrightarrow>
      vec_add v1 v2 = Inl Unequal_vector_sizes \<and> vec_equal v1 v2 = False) \<and>
   (length v1 = length v2 \<longrightarrow>
      (\<exists>v. vec_add v1 v2 = Inr v \<and> length v = length v1 \<and>
           (\<forall>i < length v1. v ! i = js_add (v1 ! i) (v2 ! i))) \<and>
      (vec_equal v1 v2 \<longleftrightarrow> (\<forall>i < length v1. js_eq (v1 ! i) (v2 ! i))))"
  by (simp add: vec_add_def vec_equal_def vec_equal_loop_iff)

theorem vec_length_mismatch_witness:
  "vec_add [Fin 1, Fin 2] [Fin 3] = Inl Unequal_vector_sizes \<and>
   vec_equal [Fin 1, Fin 2] [Fin 3] = False \<and>
   vec_add [Fin 1, Fin 2] [Fin 3, Fin 4] = Inr [Fin 4, Fin 6] \<and>
   vec_equal [Fin 1, Fin 2] [Fin 1, Fin 2] = True \<and>
   vec_equal [Fin 1, NaN] [Fin 1, NaN] = False"
  using vec_length_mismatch [of "[Fin 1, Fin 2]" "[Fin 3]"]
    vec_length_mismatch [of "[Fin 1, Fin 2]" "[Fin 3, Fin 4]"]
    vec_length_mismatch [of "[Fin 1, Fin 2]" "[Fin 1, Fin 2]"]
    vec_length_mismatch [of "[Fin 1, NaN]" "[Fin 1, NaN]"]
  by (simp add: vec_add_def less_Suc_eq_0_disj vec_equal_def js_arith)

section \<open>Properties of the backward pass\<close>

subsection \<open>Writing a derivative changes nothing else\<close>

lemma length_set_derivative [simp]: "length (set_derivative h d s) = length s"
  by (simp add: set_derivative_def)

lemma parents_set_derivative [simp]: "parents (set_derivative h d s ! k) = parents (s ! k)"
  by (cases "h < length s"; cases "k = h") (simp_all add: set_derivative_def not_less list_update_beyond)

lemma ddparents_set_derivative [simp]:
  "ddparents (set_derivative h d s ! k) = ddparents (s ! k)"
  by (cases "h < length s"; cases "k = h") (simp_all add: set_derivative_def not_less list_update_beyond)

lemma derivative_set_derivative:
  "derivative (set_derivative h d s ! k) =
     (if k = h \<and> h < length s then Some d else derivative (s ! k))"
  by (cases "h < length s"; cases "k = h") (simp_all add: set_derivative_def not_less list_update_beyond)

lemma length_accumulate [simp]: "length (accumulate prior n pl s) = length s"
  by (simp add: accumulate_def)

lemma parents_accumulate [simp]: "parents (accumulate prior n pl s ! k) = parents (s ! k)"
  by (simp add: accumulate_def)

lemma ddparents_accumulate [simp]: "ddparents (accumulate prior n pl s ! k) = ddparents (s ! k)"
  by (simp add: accumulate_def)

lemma derivative_accumulate_keeps:
  "derivative (s ! k) \<noteq> None \<Longrightarrow> derivative (accumulate prior n pl s ! k) \<noteq> None"
  by (simp add: accumulate_def derivative_set_derivative)

lemma derivative_accumulate_sets:
  "fst pl < length s \<Longrightarrow> derivative (accumulate prior n pl s ! fst pl) \<noteq> None"
  by (simp add: accumulate_def derivative_set_derivative)

lemma length_fold_accumulate [simp]: "length (fold (accumulate prior n) zs s) = length s"
  by (induction zs arbitrary: s) simp_all

lemma parents_fold_accumulate [simp]:
  "parents (fold (accumulate prior n) zs s ! k) = parents (s ! k)"
  by (induction zs arbitrary: s) simp_all

lemma ddparents_fold_accumulate [simp]:
  "ddparents (fold (accumulate prior n) zs s ! k) = ddparents (s ! k)"
  by (induction zs arbitrary: s) simp_all

lemma derivative_fold_accumulate_keeps:
  "derivative (s ! k) \<noteq> None \<Longrightarrow> derivative (fold (accumulate prior n) zs s ! k) \<noteq> None"
proof (induction zs arbitrary: s)
  case Nil
  then show ?case by simp
next
  case (Cons z zs)
  from Cons.prems have "derivative (accumulate prior n z s ! k) \<noteq> None"
    by (rule derivative_accumulate_keeps)
  then have "derivative (fold (accumulate prior n) zs (accumulate prior n z s) ! k) \<noteq> None"
    by (rule Cons.IH)
  then show ?case by simp
qed

lemma derivative_fold_accumulate_sets:
  "pl \<in> set zs \<Longrightarrow> fst pl < length s \<Longrightarrow>
     derivative (fold (accumulate prior n) zs s ! fst pl) \<noteq> None"
proof (induction zs arbitrary: s)
  case Nil
  then show ?case by simp
next
  case (Cons z zs)
  show ?case
  proof (cases "pl = z")
    case True
    with Cons.prems have "derivative (accumulate prior n z s ! fst pl) \<noteq> None"
      by (simp add: derivative_accumulate_sets)
    then show ?thesis
      by (simp add: derivative_fold_accumulate_keeps)
  next
    case False
    with Cons.prems have "pl \<in> set zs" by simp
    then show ?thesis
      using Cons.IH [of "accumulate prior n z s"] Cons.prems(2) by simp
  qed
qed

lemma length_visit [simp]: "length (visit prior n s) = length s"
  by (simp add: visit_def)

lemma parents_visit [simp]: "parents (visit prior n s ! k) = parents (s ! k)"
  by (simp add: visit_def)

lemma ddparents_visit [simp]: "ddparents (visit prior n s ! k) = ddparents (s ! k)"
  by (simp add: visit_def)

lemma derivative_visit_keeps:
  "derivative (s ! k) \<noteq> None \<Longrightarrow> derivative (visit prior n s ! k) \<noteq> None"
  by (simp add: visit_def derivative_fold_accumulate_keeps)

lemma derivative_visit_sets:
  assumes "p \<in> set (parents (s ! n))"
    and "length (parents (s ! n)) = length (ddparents (s ! n))"
    and "p < length s"
  shows "derivative (visit prior n s ! p) \<noteq> None"
proof -
  from assms(1) obtain i where i: "i < length (parents (s ! n))" "parents (s ! n) ! i = p"
    by (auto simp add: in_set_conv_nth)
  let ?zs = "zip (parents (s ! n)) (ddparents (s ! n))"
  from i assms(2) have "(p, ddparents (s ! n) ! i) \<in> set ?zs"
    by (auto simp add: set_zip)
  from derivative_fold_accumulate_sets [OF this, of s prior n] assms(3)
  show ?thesis by (simp add: visit_def)
qed

lemma wf_tape_visit: "wf_tape s \<Longrightarrow> wf_tape (visit prior n s)"
  by (simp add: wf_tape_def wf_node_def)

lemma wf_tape_set_derivative: "wf_tape s \<Longrightarrow> wf_tape (set_derivative h d s)"
  by (simp add: wf_tape_def wf_node_def)

subsection \<open>The inner loop is a fold over the pairs of parents and local derivatives\<close>

lemma chain_rule_fold:
  assumes "n < length s"
    and "length (ddparents (s ! n)) = k" and "length (parents (s ! n)) = k"
    and "\<forall>p \<in> set (parents (s ! n)). p < n"
    and "derivative (s ! n) \<noteq> None"
  shows "chain_rule n [i ..< k] s =
           Inr (fold (accumulate or_zero n) (drop i (zip (parents (s ! n)) (ddparents (s ! n)))) s)"
  using assms
proof (induction "k - i" arbitrary: i s)
  case 0
  then show ?case by simp
next
  case (Suc d)
  from Suc.hyps(2) have ik: "i < k" by simp
  let ?ps = "parents (s ! n)" and ?ds = "ddparents (s ! n)"
  let ?p = "?ps ! i"
  from ik Suc.prems have pn: "?p < n" by simp
  with Suc.prems(1) have pl: "?p < length s" by simp
  obtain v where v: "derivative (s ! n) = Some v"
    using Suc.prems(5) by blast
  let ?s' = "accumulate or_zero n (?p, ?ds ! i) s"
  have step: "chain_rule n [i ..< k] s = chain_rule n [Suc i ..< k] ?s'"
    using ik pl Suc.prems(2) v
    by (simp add: upt_rec [of i] node_at_def nth_opt_def accumulate_def Let_def)
  have dn: "derivative (?s' ! n) \<noteq> None"
    using Suc.prems(5) by (rule derivative_accumulate_keeps)
  have "chain_rule n [Suc i ..< k] ?s' =
      Inr (fold (accumulate or_zero n) (drop (Suc i) (zip (parents (?s' ! n)) (ddparents (?s' ! n)))) ?s')"
    using Suc.hyps(2) Suc.prems dn by (intro Suc.hyps(1)) simp_all
  moreover have "drop i (zip ?ps ?ds) = (?p, ?ds ! i) # drop (Suc i) (zip ?ps ?ds)"
    using ik Suc.prems(2,3) by (simp add: Cons_nth_drop_Suc [symmetric])
  ultimately show ?case
    using step by simp
qed

lemma chain_rule_visit:
  assumes "n < length s" and "wf_node n (s ! n)"
    and "parents (s ! n) = [] \<or> derivative (s ! n) \<noteq> None"
  shows "chain_rule n [0 ..< length (parents (s ! n))] s = Inr (visit or_zero n s)"
proof (cases "parents (s ! n) = []")
  case True
  then show ?thesis by (simp add: visit_def)
next
  case False
  with assms(3) have d: "derivative (s ! n) \<noteq> None" by simp
  from assms(2) have l: "length (ddparents (s ! n)) = length (parents (s ! n))"
    and p: "\<forall>p \<in> set (parents (s ! n)). p < n"
    by (simp_all add: wf_node_def list_all_iff)
  from chain_rule_fold [OF assms(1) l refl p d, of 0] show ?thesis
    by (simp add: visit_def)
qed

subsection \<open>The outer loop is a fold over the positions in reverse\<close>

lemma ready_visit:
  assumes r: "ready (Suc j) s" and w: "wf_tape s" and j: "j < length s"
  shows "ready j (visit prior j s)"
  unfolding ready_def
proof (intro allI impI)
  fix n
  assume n: "n < j" and pn: "parents (visit prior j s ! n) \<noteq> []"
  from r n pn have "derivative (s ! n) \<noteq> None \<or> (\<exists>c < Suc j. n < c \<and> n \<in> set (parents (s ! c)))"
    by (simp add: ready_def)
  then show "derivative (visit prior j s ! n) \<noteq> None \<or>
      (\<exists>c < j. n < c \<and> n \<in> set (parents (visit prior j s ! c)))"
  proof
    assume "derivative (s ! n) \<noteq> None"
    then show ?thesis by (simp add: derivative_visit_keeps)
  next
    assume "\<exists>c < Suc j. n < c \<and> n \<in> set (parents (s ! c))"
    then obtain c where c: "c < Suc j" "n < c" "n \<in> set (parents (s ! c))" by blast
    show ?thesis
    proof (cases "c = j")
      case True
      from w j have "length (parents (s ! j)) = length (ddparents (s ! j))"
        by (simp add: wf_tape_def wf_node_def)
      with c(3) True n j have "derivative (visit prior j s ! n) \<noteq> None"
        by (intro derivative_visit_sets) simp_all
      then show ?thesis ..
    next
      case False
      with c have "c < j" by simp
      with c show ?thesis by auto
    qed
  qed
qed

lemma walk_fold:
  assumes "j \<le> length s" and "wf_tape s" and "ready j s"
  shows "walk (rev [0 ..< j]) s = Inr (fold (visit or_zero) (rev [0 ..< j]) s)"
  using assms
proof (induction j arbitrary: s)
  case 0
  then show ?case by simp
next
  case (Suc j)
  from Suc.prems(1) have j: "j < length s" by simp
  from Suc.prems(2) j have wn: "wf_node j (s ! j)"
    by (simp add: wf_tape_def)
  from Suc.prems(3) have "parents (s ! j) = [] \<or> derivative (s ! j) \<noteq> None"
    by (auto simp add: ready_def)
  with j wn have c: "chain_rule j [0 ..< length (parents (s ! j))] s = Inr (visit or_zero j s)"
    by (rule chain_rule_visit)
  have "walk (rev [0 ..< j]) (visit or_zero j s) =
      Inr (fold (visit or_zero) (rev [0 ..< j]) (visit or_zero j s))"
  proof (rule Suc.IH)
    show "j \<le> length (visit or_zero j s)" using j by simp
    show "wf_tape (visit or_zero j s)" using Suc.prems(2) by (rule wf_tape_visit)
    show "ready j (visit or_zero j s)" using Suc.prems(3,2) j by (rule ready_visit)
  qed
  with c show ?case by simp
qed

lemma ready_start:
  assumes "s \<noteq> []" and "all_used s"
  shows "ready (length s) (set_derivative (length s - 1) (Fin 1) s)"
  unfolding ready_def
proof (intro allI impI)
  fix n
  let ?s = "set_derivative (length s - 1) (Fin 1) s"
  assume n: "n < length s" and p: "parents (?s ! n) \<noteq> []"
  show "derivative (?s ! n) \<noteq> None \<or> (\<exists>c < length s. n < c \<and> n \<in> set (parents (?s ! c)))"
  proof (cases "Suc n < length s")
    case True
    with p assms(2) have "used s n"
      by (simp add: all_used_def)
    then show ?thesis
      by (auto simp add: used_def)
  next
    case False
    with n have "n = length s - 1" by simp
    with assms(1) show ?thesis
      by (simp add: derivative_set_derivative)
  qed
qed

lemma calc_derivs_is_fold:
  assumes "wf_tape s" and "s \<noteq> []" and "all_used s"
  shows "aad_calc_derivs s = Inr (compute_derivatives_falsy s)"
proof -
  let ?s = "set_derivative (length s - 1) (Fin 1) s"
  have "walk (rev [0 ..< length s]) ?s = Inr (fold (visit or_zero) (rev [0 ..< length s]) ?s)"
    using assms by (intro walk_fold ready_start wf_tape_set_derivative) simp_all
  with assms(2) show ?thesis
    by (simp add: aad_calc_derivs_def compute_derivatives_falsy_def backward_def)
qed

subsection \<open>The pass and its specification\<close>

text \<open>
  Claim C2, amended. On a non-empty well-formed tape in which every node with parents,
  but for the last, is a parent of a later node, \<open>aad_calc_derivs\<close> sets the derivative
  of the last node to 1 and then, over the tape in strict reverse creation order, for
  each pair of a parent and a local derivative of each node assigns
  \<open>parent.derivative = prior + local_derivative * node.derivative\<close>, where \<open>prior\<close> is
  0 when the parent's derivative is absent, 0 or \<open>NaN\<close>, and the parent's derivative
  otherwise.
\<close>

theorem backward_pass_refinement:
  assumes "wf_tape s" and "s \<noteq> []" and "all_used s"
  shows "aad_calc_derivs s = Inr (compute_derivatives_falsy s)"
  using assms by (rule calc_derivs_is_fold)

lemma session_shared:
  "session [Const (Fin 3), Mul 0 0, Add 1 0] =
     [const_node (Fin 3),
      \<lparr>val = Fin 9, parents = [0, 0], ddparents = [Fin 3, Fin 3], derivative = None\<rparr>,
      \<lparr>val = Fin 12, parents = [1, 0], ddparents = [Fin 1, Fin 1], derivative = None\<rparr>]"
  by (simp add: session_def aad_begin_def aad_const_def aad_mul_def aad_add_def push_def
      node_at_def const_node_def js_arith)

lemma all_used_shared: "all_used (session [Const (Fin 3), Mul 0 0, Add 1 0])"
  unfolding all_used_def
proof (intro allI impI)
  fix n
  let ?s = "session [Const (Fin 3), Mul 0 0, Add 1 0]"
  assume l: "n < length ?s - 1" and a: "parents (?s ! n) \<noteq> []"
  from l have "n = 0 \<or> n = 1"
    unfolding session_shared by auto
  with a have n: "n = 1"
    unfolding session_shared by (auto simp add: const_node_def)
  have "2 < length ?s \<and> n < 2 \<and> n \<in> set (parents (?s ! 2))"
    unfolding session_shared n by simp
  then show "used ?s n"
    unfolding used_def by blast
qed

theorem backward_pass_refinement_witness:
  "wf_tape (session [Const (Fin 3), Mul 0 0, Add 1 0]) \<and>
   session [Const (Fin 3), Mul 0 0, Add 1 0] \<noteq> [] \<and>
   all_used (session [Const (Fin 3), Mul 0 0, Add 1 0]) \<and>
   aad_calc_derivs (session [Const (Fin 3), Mul 0 0, Add 1 0]) =
     Inr (compute_derivatives_falsy (session [Const (Fin 3), Mul 0 0, Add 1 0]))"
proof -
  let ?s = "session [Const (Fin 3), Mul 0 0, Add 1 0]"
  have w: "wf_tape ?s"
    unfolding session_def aad_begin_def by (rule wf_fold_run) (rule wf_tape_Nil)
  have n: "?s \<noteq> []"
    unfolding session_shared by simp
  from backward_pass_refinement [OF w n all_used_shared] w n all_used_shared
  show ?thesis by blast
qed

lemma session_nan_prior:
  "session [Const (Fin 1), Const NaN, Add 0 0, Mul 0 1, Add 2 3] =
     [const_node (Fin 1), const_node NaN,
      \<lparr>val = Fin 2, parents = [0, 0], ddparents = [Fin 1, Fin 1], derivative = None\<rparr>,
      \<lparr>val = NaN, parents = [0, 1], ddparents = [NaN, Fin 1], derivative = None\<rparr>,
      \<lparr>val = NaN, parents = [2, 3], ddparents = [Fin 1, Fin 1], derivative = None\<rparr>]"
  by (simp add: session_def aad_begin_def aad_const_def aad_mul_def aad_add_def push_def
      node_at_def const_node_def js_arith)

text \<open>
  Claim C2, as the specification states it, fails where a parent's derivative is \<open>NaN\<close>
  before an addition: \<open>NaN || 0\<close> is 0, so the program drops the \<open>NaN\<close> that
  \<open>+=\<close> would keep. In \<open>y = (a + a) + a * k\<close> with \<open>k = NaN\<close> the program leaves
  \<open>a.derivative = 2\<close>, the specification's pass \<open>NaN\<close>.
\<close>

theorem backward_pass_NaN_prior_counterexample:
  "map_sum id (map derivative)
     (aad_calc_derivs (session [Const (Fin 1), Const NaN, Add 0 0, Mul 0 1, Add 2 3])) =
     Inr [Some (Fin 2), Some (Fin 1), Some (Fin 1), Some (Fin 1), Some (Fin 1)] \<and>
   map derivative
     (compute_derivatives (session [Const (Fin 1), Const NaN, Add 0 0, Mul 0 1, Add 2 3])) =
     [Some NaN, Some (Fin 1), Some (Fin 1), Some (Fin 1), Some (Fin 1)]"
  unfolding session_nan_prior
  by (simp add: aad_calc_derivs_def compute_derivatives_def backward_def visit_def accumulate_def
      const_node_def set_derivative_def node_at_def nth_opt_def
      upt_rec [of 0] upt_rec [of 1] upt_rec [of 2] upt_rec [of 3] upt_rec [of 4]
      upt_rec [of "Suc 0"] eval_nat_numeral js_arith)

lemma session_dead:
  "session [Const (Fin 2), Mul 0 0, Add 0 0] =
     [const_node (Fin 2),
      \<lparr>val = Fin 4, parents = [0, 0], ddparents = [Fin 2, Fin 2], derivative = None\<rparr>,
      \<lparr>val = Fin 4, parents = [0, 0], ddparents = [Fin 1, Fin 1], derivative = None\<rparr>]"
  by (simp add: session_def aad_begin_def aad_const_def aad_mul_def aad_add_def push_def
      node_at_def const_node_def js_arith)

text \<open>
  Claim C1 fails on the program. A node with parents that no later node uses has no
  derivative when the walk reaches it, and \<open>node.ddparents[i] * node.derivative\<close> is then
  \<open>NaN\<close>: after \<open>a = 2; d = a * a; y = a + a\<close> the pass leaves \<open>a.derivative = NaN\<close>,
  where the derivative of \<open>y\<close> with respect to \<open>a\<close> is 2.
\<close>

theorem dead_node_poisons_derivative:
  "aad_calc_derivs (session [Const (Fin 2), Mul 0 0, Add 0 0]) =
     Inr [\<lparr>val = Fin 2, parents = [], ddparents = [], derivative = Some NaN\<rparr>,
          \<lparr>val = Fin 4, parents = [0, 0], ddparents = [Fin 2, Fin 2], derivative = None\<rparr>,
          \<lparr>val = Fin 4, parents = [0, 0], ddparents = [Fin 1, Fin 1], derivative = Some (Fin 1)\<rparr>]"
  unfolding session_dead
  by (simp add: aad_calc_derivs_def const_node_def set_derivative_def node_at_def nth_opt_def
      upt_rec [of 0] upt_rec [of "Suc 0"] upt_rec [of "Suc (Suc 0)"] upt_rec [of 1] upt_rec [of 2]
      eval_nat_numeral js_arith)


text \<open>
  On the specification's own example \<open>y = a * a + a\<close>, where every node is used, the
  pass sums the two paths: with \<open>a.value = 3\<close> it leaves \<open>a.derivative = 7\<close>, which is
  \<open>2 * a.value + 1\<close>.
\<close>

lemma shared_example:
  "aad_calc_derivs (session [Const (Fin 3), Mul 0 0, Add 1 0]) =
     Inr [\<lparr>val = Fin 3, parents = [], ddparents = [], derivative = Some (Fin 7)\<rparr>,
          \<lparr>val = Fin 9, parents = [0, 0], ddparents = [Fin 3, Fin 3], derivative = Some (Fin 1)\<rparr>,
          \<lparr>val = Fin 12, parents = [1, 0], ddparents = [Fin 1, Fin 1], derivative = Some (Fin 1)\<rparr>]"
  unfolding session_shared
  by (simp add: aad_calc_derivs_def const_node_def set_derivative_def node_at_def nth_opt_def
      upt_rec [of 0] upt_rec [of "Suc 0"] upt_rec [of "Suc (Suc 0)"] upt_rec [of 1] upt_rec [of 2]
      eval_nat_numeral js_arith)

section \<open>Properties of the minimizer\<close>

subsection \<open>The literals, and numbers that are not negative\<close>

lemma denorm_min_le_tolerance: "denorm_min \<le> 1 / 10 ^ 15"
  by (simp add: denorm_min_def)

lemma tolerance_literal:
  "\<exists>c. fl (1 / 10 ^ 15) = Fin c \<and> 0 < c \<and> c \<le> 3 / (2 * 10 ^ 15) \<and> representable c"
proof -
  have "(1 / 10 ^ 15 :: real) < 2 ^ 1023" by simp
  from fl_near [OF denorm_min_le_tolerance this] obtain v where
    v: "fl (1 / 10 ^ 15) = Fin v" "1 / 10 ^ 15 / 2 \<le> v" "v \<le> 3 * (1 / 10 ^ 15) / 2" "representable v"
    by blast
  from v(2) have "0 < v" by simp
  moreover from v(3) have "v \<le> 3 / (2 * 10 ^ 15)" by simp
  ultimately show ?thesis using v(1,4) by blast
qed

lemma tenth_literal:
  "\<exists>c. fl (1 / 10) = Fin c \<and> 0 < c \<and> c < 1 \<and> representable c"
proof -
  have "denorm_min \<le> 1 / 10" by (simp add: denorm_min_def)
  moreover have "(1 / 10 :: real) < 2 ^ 1023" by simp
  ultimately obtain v where
    v: "fl (1 / 10) = Fin v" "1 / 10 / 2 \<le> v" "v \<le> 3 * (1 / 10) / 2" "representable v"
    using fl_near by blast
  from v(2) have "0 < v" by simp
  moreover from v(3) have "v < 1" by simp
  ultimately show ?thesis using v(1,4) by blast
qed

lemma growth_literal:
  "\<exists>c. fl (11 / 10) = Fin c \<and> 0 < c \<and> representable c"
proof -
  have "denorm_min \<le> 11 / 10" by (simp add: denorm_min_def)
  moreover have "(11 / 10 :: real) < 2 ^ 1023" by simp
  ultimately obtain v where
    v: "fl (11 / 10) = Fin v" "11 / 10 / 2 \<le> v" "representable v"
    using fl_near by blast
  from v(2) have "0 < v" by simp
  then show ?thesis using v(1,3) by blast
qed

lemma not_negative_simps [simp]:
  "not_negative NaN" "not_negative Infinity" "\<not> not_negative NegInfinity"
  "\<not> not_negative NegZero" "not_negative (Fin r) \<longleftrightarrow> 0 \<le> r"
  by (simp_all add: not_negative_def)

lemma not_negative_fl: "0 \<le> r \<Longrightarrow> not_negative (fl r)"
  using magnitude_nonneg [of r] by (simp add: fl_def)

lemma not_negative_mul: "not_negative a \<Longrightarrow> not_negative b \<Longrightarrow> not_negative (js_mul a b)"
  by (cases a; cases b)
    (simp_all add: js_mul_def signed_zero_def signed_infinity_def not_negative_fl)

lemma not_negative_square: "not_negative (js_mul x x)"
  by (cases x) (simp_all add: js_mul_def signed_zero_def signed_infinity_def not_negative_fl)

lemma not_negative_add: "not_negative a \<Longrightarrow> not_negative b \<Longrightarrow> not_negative (js_add a b)"
  by (cases a; cases b) (simp_all add: js_add_def not_negative_fl)

lemma not_negative_foldl:
  "not_negative t \<Longrightarrow> not_negative (foldl (\<lambda>t x. js_add t (js_mul x x)) t v)"
  by (induction v arbitrary: t) (simp_all add: not_negative_add not_negative_square)

lemma not_negative_sqrt: "not_negative t \<Longrightarrow> not_negative (Math_sqrt t)"
  by (cases t) (simp_all add: not_negative_fl)

lemma not_negative_vec_norm: "not_negative (vec_norm v)"
  unfolding vec_norm_def
  by (intro not_negative_sqrt not_negative_foldl) simp

lemma not_negative_abs: "not_negative (Math_abs y)"
  by (cases y) simp_all

lemma js_le_zero_not_negative: "not_negative t \<Longrightarrow> \<not> isNaN t \<Longrightarrow> js_le (Fin 0) t"
  by (cases t) (auto simp add: js_le_def js_lt_def js_eq_def)

lemma not_js_gt_zero_not_negative: "not_negative t \<Longrightarrow> \<not> js_gt (Fin 0) t"
  by (cases t) (simp_all add: js_gt_def js_lt_def)

lemma js_mul_pos_not_NaN:
  "0 < c \<Longrightarrow> \<not> isNaN b \<Longrightarrow> \<not> isNaN (js_mul (Fin c) b)"
  by (cases b) (simp_all add: js_mul_def signed_zero_def signed_infinity_def)

subsection \<open>The values of the step\<close>

lemma grid_step_Infinity [simp]: "grid_step Infinity"
  by (simp add: grid_step_def)

lemma grid_step_0 [simp]: "grid_step (Fin 0)"
proof -
  have "Fin 0 = Fin (of_nat 0 * denorm_min) \<and> of_nat 0 * denorm_min < max_bound"
    by (simp add: max_bound_def)
  then show ?thesis
    unfolding grid_step_def by blast
qed

lemma grid_step_1 [simp]: "grid_step (Fin 1)"
proof -
  have "Fin 1 = Fin (of_nat (2 ^ 1074) * denorm_min) \<and>
      of_nat (2 ^ 1074) * denorm_min < max_bound"
    by (simp add: denorm_min_def max_bound_def)
  then show ?thesis
    unfolding grid_step_def by blast
qed

lemma grid_step_fl:
  assumes "0 < r"
  shows "grid_step (fl r)"
proof -
  from magnitude_grid [of r] obtain k :: nat where k: "magnitude r = of_nat k * denorm_min"
    by blast
  from fl_pos_cases [OF assms] show ?thesis
    unfolding grid_step_def k by auto
qed

lemma grid_step_mul:
  assumes "grid_step s" and "0 < c"
  shows "grid_step (js_mul s (Fin c))"
proof (cases "s = Infinity")
  case True
  with assms(2) show ?thesis
    by (simp add: js_mul_def signed_infinity_def)
next
  case False
  with assms(1) obtain k :: nat where k: "s = Fin (of_nat k * denorm_min)"
    unfolding grid_step_def by blast
  show ?thesis
  proof (cases "k = 0")
    case True
    with k assms(2) show ?thesis
      by (simp add: js_mul_def signed_zero_def)
  next
    case False
    with assms(2) denorm_min_pos have p: "0 < of_nat k * denorm_min * c"
      by simp
    then have "of_nat k * denorm_min * c \<noteq> 0"
      by (metis less_irrefl)
    then have "js_mul s (Fin c) = fl (of_nat k * denorm_min * c)"
      unfolding k by (rule js_mul_Fin)
    with grid_step_fl [OF p] show ?thesis by simp
  qed
qed

lemma grid_step_not_negative: "grid_step s \<Longrightarrow> not_negative s"
  using denorm_min_pos by (auto simp add: grid_step_def not_negative_def)

lemma halve_smallest: "fl (denorm_min * (1 / 2)) = Fin 0"
proof -
  let ?r = "denorm_min * (1 / 2)"
  have r: "0 < ?r" using denorm_min_pos by simp
  then have n: "?r \<noteq> 0" by simp
  have "\<not> 2 ^ 52 * quantum ?r \<le> \<bar>?r\<bar>"
  proof
    assume "2 ^ 52 * quantum ?r \<le> \<bar>?r\<bar>"
    moreover have "2 ^ 52 * denorm_min \<le> 2 ^ 52 * quantum ?r"
      using quantum_ge [of ?r] by simp
    ultimately have "2 ^ 52 * denorm_min \<le> denorm_min * (1 / 2)"
      using r by simp
    with denorm_min_pos show False by simp
  qed
  with quantum_le [OF n] have q: "quantum ?r = denorm_min"
    by blast
  have "\<bar>?r\<bar> / quantum ?r = 1 / 2"
    unfolding q using denorm_min_pos by simp
  then have z: "magnitude ?r = 0"
    unfolding magnitude_def by (simp add: round_half_even_half)
  then have "magnitude ?r < max_bound"
    by (simp add: max_bound_def)
  with r have "fl ?r = Fin (magnitude ?r)"
    by (rule fl_pos_finite)
  with z show ?thesis
    by simp
qed

lemma halve_grid:
  assumes "0 < k" and "of_nat k * denorm_min < max_bound"
  shows "\<exists>k'<k. js_mul (Fin (of_nat k * denorm_min)) (Fin (1 / 2)) = Fin (of_nat k' * denorm_min) \<and>
           of_nat k' * denorm_min < max_bound"
proof -
  let ?s = "of_nat k * denorm_min"
  let ?r = "?s * (1 / 2)"
  from assms(1) denorm_min_pos have s: "0 < ?s" by simp
  then have r: "0 < ?r" by simp
  then have "?r \<noteq> 0" by (metis less_irrefl)
  then have m: "js_mul (Fin ?s) (Fin (1 / 2)) = fl ?r"
    by (rule js_mul_Fin)
  show ?thesis
  proof (cases "k = 1")
    case True
    then have "js_mul (Fin ?s) (Fin (1 / 2)) = Fin (of_nat 0 * denorm_min)"
      unfolding m using halve_smallest by simp
    moreover have "of_nat 0 * denorm_min < max_bound"
      by (simp add: max_bound_def)
    ultimately show ?thesis
      using assms(1) by blast
  next
    case False
    with assms(1) have "2 \<le> k" by simp
    then have "(2::real) \<le> of_nat k" by simp
    then have "2 * denorm_min \<le> of_nat k * denorm_min"
      using denorm_min_pos by (intro mult_right_mono) simp_all
    then have "denorm_min \<le> \<bar>?r\<bar>"
      by simp
    from magnitude_near(2) [OF this] r have "magnitude ?r \<le> 3 * ?r / 2"
      by simp
    with s have lt: "magnitude ?r < ?s"
      by simp
    with assms(2) have b: "magnitude ?r < max_bound"
      by simp
    with r have f: "fl ?r = Fin (magnitude ?r)"
      by (rule fl_pos_finite)
    from magnitude_grid [of ?r] obtain k' :: nat where k': "magnitude ?r = of_nat k' * denorm_min"
      by blast
    from lt have "of_nat k' * denorm_min < of_nat k * denorm_min"
      unfolding k' .
    then have "k' < k"
      using denorm_min_pos by simp
    with m f b show ?thesis
      unfolding k' by auto
  qed
qed

subsection \<open>The backtracking loop\<close>

text \<open>
  Induction over the runs of the backtracking loop that return: the objective, the
  point, the value, the direction and the norm stay fixed, the step changes.
\<close>

lemma shrink_induct [consumes 1, case_names step]:
  assumes "shrink f x y direction nrm step = Some r"
    and "\<And>rec step r.
           (\<And>step' r'. rec step' = Some r' \<Longrightarrow> P step' r') \<Longrightarrow>
           (case vec_add x (vec_scale direction (js_div step nrm)) of
              Inl e \<Rightarrow> Some (Inl e)
            | Inr new_x \<Rightarrow>
                (case f new_x of
                   Inl e \<Rightarrow> Some (Inl e)
                 | Inr (new_y, new_dy) \<Rightarrow>
                     if accept x y nrm step new_x new_y then Some (Inr (step, new_x))
                     else rec (js_mul step (Fin (1 / 2))))) = Some r \<Longrightarrow>
           P step r"
  shows "P step r"
proof -
  let ?Q = "\<lambda>f' x' y' d' n' step r.
      f' = f \<and> x' = x \<and> y' = y \<and> d' = direction \<and> n' = nrm \<longrightarrow> P step r"
  have "?Q f x y direction nrm step r"
  proof (rule shrink.raw_induct [where P = ?Q and xa = "(((((f, x), y), direction), nrm), step)"
        and ya = r, unfolded prod.case])
    show "shrink f x y direction nrm step = Some r" by (rule assms(1))
  next
    fix sh f' x' y' d' n' step' r'
    assume ih: "\<And>x y direction nrm step b ya. sh x y direction nrm step b = Some ya \<Longrightarrow>
        ?Q x y direction nrm step b ya"
      and body: "(case vec_add x' (vec_scale d' (js_div step' n')) of
          Inl e \<Rightarrow> Some (Inl e)
        | Inr new_x \<Rightarrow>
            (case f' new_x of
               Inl e \<Rightarrow> Some (Inl e)
             | Inr (new_y, new_dy) \<Rightarrow>
                 if accept x' y' n' step' new_x new_y then Some (Inr (step', new_x))
                 else sh f' x' y' d' n' (js_mul step' (Fin (1 / 2))))) = Some r'"
    show "?Q f' x' y' d' n' step' r'"
    proof (intro impI, elim conjE)
      assume e: "f' = f" "x' = x" "y' = y" "d' = direction" "n' = nrm"
      show "P step' r'"
      proof (rule assms(2) [where rec = "sh f x y direction nrm"])
        fix s'' r''
        assume "sh f x y direction nrm s'' = Some r''"
        from ih [OF this] show "P s'' r''" by simp
      next
        from body show "(case vec_add x (vec_scale direction (js_div step' nrm)) of
          Inl e \<Rightarrow> Some (Inl e)
        | Inr new_x \<Rightarrow>
            (case f new_x of
               Inl e \<Rightarrow> Some (Inl e)
             | Inr (new_y, new_dy) \<Rightarrow>
                 if accept x y nrm step' new_x new_y then Some (Inr (step', new_x))
                 else sh f x y direction nrm (js_mul step' (Fin (1 / 2))))) = Some r'"
          unfolding e .
      qed
    qed
  qed
  then show ?thesis by simp
qed

lemma shrink_grid:
  assumes "shrink f x y direction nrm step = Some r"
  shows "grid_step step \<longrightarrow> (\<forall>step' new_x. r = Inr (step', new_x) \<longrightarrow> grid_step step')"
  using assms
proof (induction rule: shrink_induct)
  case (step rec step r)
  show ?case
  proof (intro impI allI)
    fix step' new_x
    assume g: "grid_step step" and r: "r = Inr (step', new_x)"
    from step(2) r have "step' = step \<or> rec (js_mul step (Fin (1 / 2))) = Some r"
      by (auto split: sum.splits prod.splits if_splits)
    then show "grid_step step'"
    proof
      assume "step' = step"
      with g show ?thesis by simp
    next
      assume "rec (js_mul step (Fin (1 / 2))) = Some r"
      from step(1) [OF this]
      have "grid_step (js_mul step (Fin (1 / 2))) \<longrightarrow>
          (\<forall>step' new_x. r = Inr (step', new_x) \<longrightarrow> grid_step step')" .
      moreover have "grid_step (js_mul step (Fin (1 / 2)))"
        using g by (rule grid_step_mul) simp
      ultimately show ?thesis
        using r by blast
    qed
  qed
qed

lemma is_double_js_add: "is_double (js_add a b)"
  by (cases a; cases b) (simp_all add: js_add_def)

lemma vec_add_double: "vec_add a b = Inr v \<Longrightarrow> list_all is_double v"
  by (auto simp add: vec_add_def list_all_iff is_double_js_add split: if_splits)

lemma shrink_double:
  assumes "shrink f x y direction nrm step = Some r"
  shows "\<forall>step' new_x. r = Inr (step', new_x) \<longrightarrow> list_all is_double new_x"
  using assms
proof (induction rule: shrink_induct)
  case (step rec step r)
  show ?case
  proof (intro impI allI)
    fix step' new_x
    assume r: "r = Inr (step', new_x)"
    from step(2) r
    have "vec_add x (vec_scale direction (js_div step nrm)) = Inr new_x \<or>
        rec (js_mul step (Fin (1 / 2))) = Some r"
      by (auto split: sum.splits prod.splits if_splits)
    then show "list_all is_double new_x"
    proof
      assume "vec_add x (vec_scale direction (js_div step nrm)) = Inr new_x"
      then show ?thesis by (rule vec_add_double)
    next
      assume "rec (js_mul step (Fin (1 / 2))) = Some r"
      from step(1) [OF this] r show ?thesis by blast
    qed
  qed
qed

subsection \<open>The states at the head of the outer loop\<close>

lemma at_loop_head_grid:
  assumes "at_loop_head f guess max_iter iter step x"
  shows "grid_step step"
  using assms
proof (induction rule: at_loop_head.induct)
  case start
  show ?case by simp
next
  case (again iter step x y dy step' new_x)
  from shrink_grid [OF again.hyps(4)] again.IH have "grid_step step'"
    by blast
  moreover from growth_literal obtain c where "fl (11 / 10) = Fin c" "0 < c"
    by blast
  ultimately show ?case
    using grid_step_mul by simp
qed

lemma at_loop_head_double:
  assumes "at_loop_head f guess max_iter iter step x" and "list_all is_double guess"
  shows "list_all is_double x"
  using assms
proof (induction rule: at_loop_head.induct)
  case start
  then show ?case by simp
next
  case (again iter step x y dy step' new_x)
  from shrink_double [OF again.hyps(4)] show ?case
    by blast
qed

lemma representable_of_nat:
  assumes "n \<le> 2 ^ 53"
  shows "representable (of_nat n)"
proof (cases "n = 2 ^ 53")
  case False
  with assms have "\<bar>int n\<bar> < 2 ^ 53" by simp
  from representable_of_int [OF this] show ?thesis by simp
next
  case True
  have "(of_nat n :: real) = of_int (2 ^ 52) * 2 powr of_int 1"
    unfolding True by simp
  moreover have "\<bar>2 ^ 52 :: int\<bar> < 2 ^ 53" and "(- 1074 :: int) \<le> 1"
    by simp_all
  moreover have "\<bar>of_nat n :: real\<bar> < max_bound"
    unfolding True by (simp add: max_bound_def)
  ultimately show ?thesis
    unfolding representable_def by blast
qed

lemma increment:
  assumes "n < 2 ^ 53"
  shows "js_add (Fin (of_nat n)) (Fin 1) = Fin (of_nat (Suc n))"
proof -
  from assms have "Suc n \<le> 2 ^ 53" by simp
  then have "representable (of_nat (Suc n))"
    by (rule representable_of_nat)
  then have "fl (of_nat (Suc n)) = Fin (of_nat (Suc n))"
    by (rule fl_exact)
  then show ?thesis
    by (simp add: js_add_Fin add.commute)
qed

lemma at_loop_head_counter:
  assumes "at_loop_head f guess (Fin m) iter step x" and "m \<le> 2 ^ 53"
  shows "\<exists>n::nat. iter = Fin (of_nat n) \<and> (n = 0 \<or> of_nat n < m)"
  using assms
proof (induction rule: at_loop_head.induct)
  case start
  have "Fin 0 = Fin (of_nat 0)" by simp
  then show ?case by blast
next
  case (again iter step x y dy step' new_x)
  from again.IH [OF again.prems] obtain n :: nat where
    n: "iter = Fin (of_nat n)" "n = 0 \<or> of_nat n < m"
    by blast
  have "(of_nat n :: real) < 2 ^ 53"
    using n(2) again.prems by auto
  then have "(of_nat n :: real) < of_nat (2 ^ 53)"
    by simp
  then have "n < 2 ^ 53"
    by (simp only: of_nat_less_iff)
  then have i: "js_add iter (Fin 1) = Fin (of_nat (Suc n))"
    unfolding n(1) by (rule increment)
  from again.hyps(3) have "\<not> js_ge (Fin (of_nat (Suc n))) (Fin m)"
    unfolding i stop_def by simp
  then have "of_nat (Suc n) < m"
    by (simp add: js_ge_Fin)
  with i show ?case by blast
qed

lemma descend_stop:
  assumes "f x = Inr (y, dy)"
    and "stop step (vec_norm (vec_scale dy (Fin (- 1)))) y (js_add iter (Fin 1)) max_iter"
  shows "descend f max_iter iter step x = Some (Inr x)"
  using assms by (subst descend.simps) (simp add: Let_def)

lemma descend_continue:
  assumes "f x = Inr (y, dy)"
    and "\<not> stop step (vec_norm (vec_scale dy (Fin (- 1)))) y (js_add iter (Fin 1)) max_iter"
    and "shrink f x y (vec_scale dy (Fin (- 1))) (vec_norm (vec_scale dy (Fin (- 1)))) step =
           Some (Inr (step', new_x))"
  shows "descend f max_iter iter step x =
           descend f max_iter (js_add iter (Fin 1)) (js_mul step' (fl (11 / 10))) new_x"
  using assms by (subst descend.simps) (simp add: Let_def)

lemma stop_at_cap: "m \<le> i \<Longrightarrow> stop step nrm y (Fin i) (Fin m)"
  by (simp add: stop_def js_ge_Fin)

subsection \<open>A run that never returns\<close>

lemma shrink_flat_diverges:
  assumes "shrink flat_objective [NaN] (Fin 1) [Fin (- 1)] (Fin 1) step = Some r"
  shows "\<not> grid_step step"
  using assms
proof (induction rule: shrink_induct)
  case (step rec step r)
  show ?case
  proof
    assume g: "grid_step step"
    from tenth_literal obtain c where c: "fl (1 / 10) = Fin c" "0 < c"
      by blast
    from g have "not_negative step"
      by (rule grid_step_not_negative)
    moreover from c(2) have "not_negative (Fin c)"
      by simp
    ultimately have "not_negative (js_mul (Fin c) step)"
      by (intro not_negative_mul)
    moreover have "not_negative (Fin 1)"
      by simp
    ultimately have "not_negative (js_mul (js_mul (fl (1 / 10)) step) (Fin 1))"
      unfolding c(1) by (rule not_negative_mul)
    then have a: "\<not> js_gt (Fin 0) (js_mul (js_mul (fl (1 / 10)) step) (Fin 1))"
      by (rule not_js_gt_zero_not_negative)
    have "rec (js_mul step (Fin (1 / 2))) = Some r"
      using step(2) a
      by (simp add: vec_add_def vec_scale_def flat_objective_def accept_def js_sub_def
          js_add_def vec_equal_def js_ne_def js_eq_def)
    from step(1) [OF this] have "\<not> grid_step (js_mul step (Fin (1 / 2)))" .
    moreover have "grid_step (js_mul step (Fin (1 / 2)))"
      using g by (rule grid_step_mul) simp
    ultimately show False ..
  qed
qed

text \<open>The tolerance \<open>1e-15 * |y|\<close> stays below 1 while \<open>|y|\<close> is at most a million.\<close>

lemma small_tolerance:
  assumes "0 \<le> a" and "a \<le> 10 ^ 6"
  shows "\<exists>v. js_mul (fl (1 / 10 ^ 15)) (Fin a) = Fin v \<and> v < 1"
proof -
  from tolerance_literal obtain c where
    c: "fl (1 / 10 ^ 15) = Fin c" "0 < c" "c \<le> 3 / (2 * 10 ^ 15)"
    by blast
  show ?thesis
  proof (cases "a = 0")
    case True
    then have "js_mul (Fin c) (Fin a) = Fin 0"
      using c(2) by (simp add: js_mul_def signed_zero_def)
    then show ?thesis
      unfolding c(1) by simp
  next
    case False
    with assms(1) c(2) have p: "0 < c * a" by simp
    then have "c * a \<noteq> 0" by (metis less_irrefl)
    then have m: "js_mul (Fin c) (Fin a) = fl (c * a)"
      by (rule js_mul_Fin)
    have "c * a \<le> 3 / (2 * 10 ^ 15) * 10 ^ 6"
      using c(2,3) assms by (intro mult_mono) simp_all
    then have b: "c * a \<le> 3 / (2 * 10 ^ 9)"
      by simp
    have "denorm_min \<le> 3 / (2 * 10 ^ 9)"
      by (simp add: denorm_min_def)
    moreover have "(3 / (2 * 10 ^ 9) :: real) < 2 ^ 1023"
      by simp
    ultimately obtain v where v: "fl (c * a) = Fin v" "v \<le> 3 * (3 / (2 * 10 ^ 9)) / 2"
      using fl_small [OF p b] by blast
    from v(2) have "v < 1" by simp
    with v(1) m show ?thesis
      unfolding c(1) by simp
  qed
qed

lemma vec_norm_unit: "vec_norm (vec_scale [Fin 1] (Fin (- 1))) = Fin 1"
  by (simp add: vec_norm_def vec_scale_def js_mul_def js_add_def)

lemma not_stop_first:
  assumes "0 \<le> a" and "a \<le> 10 ^ 6"
  shows "\<not> stop (Fin 1) (Fin 1) (Fin a) (js_add (Fin 0) (Fin 1)) (Fin 2)"
proof -
  from small_tolerance [OF assms] obtain v where
    v: "js_mul (fl (1 / 10 ^ 15)) (Fin a) = Fin v" "v < 1"
    by blast
  have "js_mul (Fin 1) (Fin 1) = Fin 1"
    by (simp add: js_mul_def)
  moreover have "js_add (Fin 0) (Fin 1) = Fin 1"
    by (simp add: js_add_def)
  moreover have "Math_abs (Fin a) = Fin a"
    using assms(1) by simp
  ultimately show ?thesis
    unfolding stop_def using v
    by (simp add: js_le_def js_lt_def js_eq_def js_ge_def)
qed

text \<open>
  Claim C5, as the specification states it, fails: from the guess \<open>[NaN]\<close>, with an
  objective that is constant and never throws, and \<open>max_iter = 2\<close>, the new point is
  \<open>[NaN]\<close> at every step, \<open>vec_equal\<close> is false on it, the value never decreases, and
  the backtracking loop halves the step forever (the step reaches 0 and stays there).
\<close>

theorem minimizer_runs_forever_on_NaN:
  "gradient_descent_minimize flat_objective [NaN] (Fin 2) = None"
proof -
  have d: "vec_scale [Fin 1] (Fin (- 1)) = [Fin (- 1)]"
    by (simp add: vec_scale_def js_mul_def)
  have n: "vec_norm [Fin (- 1)] = Fin 1"
    using vec_norm_unit unfolding d .
  have s: "\<not> stop (Fin 1) (Fin 1) (Fin 1) (js_add (Fin 0) (Fin 1)) (Fin 2)"
    by (rule not_stop_first) simp_all
  have "shrink flat_objective [NaN] (Fin 1) [Fin (- 1)] (Fin 1) (Fin 1) = None"
    using shrink_flat_diverges [of "Fin 1"]
    by (cases "shrink flat_objective [NaN] (Fin 1) [Fin (- 1)] (Fin 1) (Fin 1)") auto
  then show ?thesis
    unfolding gradient_descent_minimize_def
    by (subst descend.simps) (simp add: flat_objective_def d n s Let_def)
qed

subsection \<open>The norm when the backtracking loop is entered\<close>

lemma stop_at_zero_norm:
  assumes "grid_step step" and "step \<noteq> Infinity" and "\<not> isNaN y"
  shows "stop step (Fin 0) y iter max_iter"
proof -
  from assms(1,2) obtain k :: nat where k: "step = Fin (of_nat k * denorm_min)"
    unfolding grid_step_def by blast
  have "\<not> of_nat k * denorm_min < 0"
    using denorm_min_pos by (simp add: not_less)
  then have l: "js_mul step (Fin 0) = Fin 0"
    unfolding k by (simp add: js_mul_def signed_zero_def)
  from tolerance_literal obtain c where c: "fl (1 / 10 ^ 15) = Fin c" "0 < c"
    by blast
  from c(2) have "not_negative (Fin c)"
    by simp
  then have "not_negative (js_mul (Fin c) (Math_abs y))"
    using not_negative_abs by (rule not_negative_mul)
  moreover have "\<not> isNaN (Math_abs y)"
    using assms(3) by (cases y) simp_all
  then have "\<not> isNaN (js_mul (Fin c) (Math_abs y))"
    using c(2) by (intro js_mul_pos_not_NaN)
  ultimately have "js_le (Fin 0) (js_mul (Fin c) (Math_abs y))"
    by (rule js_le_zero_not_negative)
  then show ?thesis
    unfolding stop_def l c(1) by simp
qed

lemma stop_at_zero_step:
  assumes "not_negative nrm" and "\<not> isNaN nrm" and "nrm \<noteq> Infinity" and "\<not> isNaN y"
  shows "stop (Fin 0) nrm y iter max_iter"
proof -
  from assms(1,2,3) have l: "js_mul (Fin 0) nrm = Fin 0"
    by (cases nrm) (simp_all add: js_mul_def signed_zero_def)
  from tolerance_literal obtain c where c: "fl (1 / 10 ^ 15) = Fin c" "0 < c"
    by blast
  from c(2) have "not_negative (Fin c)"
    by simp
  then have "not_negative (js_mul (Fin c) (Math_abs y))"
    using not_negative_abs by (rule not_negative_mul)
  moreover have "\<not> isNaN (Math_abs y)"
    using assms(4) by (cases y) simp_all
  then have "\<not> isNaN (js_mul (Fin c) (Math_abs y))"
    using c(2) by (intro js_mul_pos_not_NaN)
  ultimately have "js_le (Fin 0) (js_mul (Fin c) (Math_abs y))"
    by (rule js_le_zero_not_negative)
  then show ?thesis
    unfolding stop_def l c(1) by simp
qed

text \<open>
  Once \<open>step *= 1.1\<close> has overflowed, a norm of 0 does not stop the outer loop:
  \<open>Infinity * 0\<close> is \<open>NaN\<close>, and no comparison with \<open>NaN\<close> holds.
\<close>

lemma no_stop_at_overflowed_step:
  "\<not> js_ge iter max_iter \<Longrightarrow> \<not> stop Infinity (Fin 0) y iter max_iter"
  by (simp add: stop_def js_mul_def js_le_def js_lt_def js_eq_def)

lemma first_coordinate_enters:
  "enters_inner_loop first_coordinate [Fin 10] (Fin 2) (Fin 10) (Fin 1) (Fin 1)"
  unfolding enters_inner_loop_def
proof (intro exI conjI)
  show "at_loop_head first_coordinate [Fin 10] (Fin 2) (Fin 0) (Fin 1) [Fin 10]"
    by (rule at_loop_head.start)
  show "first_coordinate [Fin 10] = Inr (Fin 10, [Fin 1])"
    by (simp add: first_coordinate_def nth_opt_def)
  show "Fin 1 = vec_norm (vec_scale [Fin 1] (Fin (- 1)))"
    by (simp add: vec_norm_unit)
  show "\<not> stop (Fin 1) (Fin 1) (Fin 10) (js_add (Fin 0) (Fin 1)) (Fin 2)"
    by (rule not_stop_first) simp_all
qed

text \<open>
  Claim C10, amended. Whenever an execution enters the backtracking loop, the step is
  \<open>Infinity\<close> (after \<open>step *= 1.1\<close> has overflowed) or a finite number that is not
  negative. If the step is not \<open>Infinity\<close> and the value \<open>y\<close> of the objective is not
  \<open>NaN\<close>, the norm is not 0, so \<open>step / norm\<close> does not divide by zero, and the norm is
  greater than 0 unless it is \<open>NaN\<close> (a gradient that holds a \<open>NaN\<close>).
\<close>

theorem inner_loop_norm_not_zero:
  assumes "enters_inner_loop f guess max_iter y nrm step"
  shows "(step = Infinity \<or> (\<exists>s. step = Fin s \<and> 0 \<le> s)) \<and>
         (\<not> isNaN y \<and> step \<noteq> Infinity \<longrightarrow>
            nrm \<noteq> Fin 0 \<and> nrm \<noteq> NegZero \<and> (\<not> isNaN nrm \<longrightarrow> js_gt nrm (Fin 0)))"
proof -
  from assms obtain iter x dy where
    h: "at_loop_head f guess max_iter iter step x"
    and n: "nrm = vec_norm (vec_scale dy (Fin (- 1)))"
    and c: "\<not> stop step nrm y (js_add iter (Fin 1)) max_iter"
    unfolding enters_inner_loop_def by blast
  from h have g: "grid_step step"
    by (rule at_loop_head_grid)
  then have "not_negative step"
    by (rule grid_step_not_negative)
  then have s: "step = Infinity \<or> (\<exists>s. step = Fin s \<and> 0 \<le> s)"
    using g by (cases step) (simp_all add: grid_step_def)
  have nn: "not_negative nrm"
    unfolding n by (rule not_negative_vec_norm)
  have z: "nrm \<noteq> Fin 0" if "\<not> isNaN y" "step \<noteq> Infinity"
  proof
    assume "nrm = Fin 0"
    with c stop_at_zero_norm [OF g that(2,1), of "js_add iter (Fin 1)" max_iter]
    show False by simp
  qed
  from nn have m: "nrm \<noteq> NegZero"
    by (cases nrm) simp_all
  have "js_gt nrm (Fin 0)" if "\<not> isNaN y" "step \<noteq> Infinity" "\<not> isNaN nrm"
    using nn z [OF that(1,2)] that(3)
    by (cases nrm) (simp_all add: js_gt_def js_lt_def)
  with s z m show ?thesis
    by blast
qed

theorem inner_loop_norm_not_zero_witness:
  "enters_inner_loop first_coordinate [Fin 10] (Fin 2) (Fin 10) (Fin 1) (Fin 1) \<and>
   \<not> isNaN (Fin 10) \<and> Fin 1 \<noteq> Infinity \<and> Fin 1 \<noteq> Fin 0 \<and> js_gt (Fin 1) (Fin 0)"
proof -
  have n: "\<not> isNaN (Fin 10)" "Fin 1 \<noteq> Infinity" "\<not> isNaN (Fin 1)"
    by simp_all
  from inner_loop_norm_not_zero [OF first_coordinate_enters] n first_coordinate_enters
  show ?thesis by simp
qed

text \<open>
  Claim C10, as stated, fails when the objective returns the value \<open>NaN\<close> with a zero
  gradient: \<open>0 <= 1e-15 * NaN\<close> is false, the outer test does not return, and the
  backtracking loop is entered with norm 0, where \<open>step / norm\<close> is \<open>1 / 0\<close>.
\<close>

theorem inner_loop_zero_norm_counterexample:
  "enters_inner_loop nan_objective [Fin 0] (Fin 2) NaN (Fin 0) (Fin 1) \<and>
   \<not> js_gt (Fin 0) (Fin 0) \<and> js_div (Fin 1) (Fin 0) = Infinity"
proof -
  have "enters_inner_loop nan_objective [Fin 0] (Fin 2) NaN (Fin 0) (Fin 1)"
    unfolding enters_inner_loop_def
  proof (intro exI conjI)
    show "at_loop_head nan_objective [Fin 0] (Fin 2) (Fin 0) (Fin 1) [Fin 0]"
      by (rule at_loop_head.start)
    show "nan_objective [Fin 0] = Inr (NaN, [Fin 0])"
      by (simp add: nan_objective_def)
    show "Fin 0 = vec_norm (vec_scale [Fin 0] (Fin (- 1)))"
      by (simp add: vec_norm_def vec_scale_def js_arith)
    show "\<not> stop (Fin 1) (Fin 0) NaN (js_add (Fin 0) (Fin 1)) (Fin 2)"
      by (simp add: stop_def js_arith)
  qed
  then show ?thesis
    by (simp add: js_arith)
qed

subsection \<open>The backtracking loop returns\<close>

lemma add_zero_eq:
  "is_double a \<Longrightarrow> \<not> isNaN a \<Longrightarrow> is_zero z \<Longrightarrow> js_eq a (js_add a z)"
  by (cases a; cases z) (simp_all add: js_add_def js_eq_def fl_exact)

lemma mul_zero_finite: "is_finite d \<Longrightarrow> is_zero (js_mul (Fin 0) d)"
  by (cases d) (simp_all add: js_mul_def signed_zero_def)

lemma div_zero_by_positive:
  "nrm = Infinity \<or> (\<exists>n. nrm = Fin n \<and> 0 < n) \<Longrightarrow> js_div (Fin 0) nrm = Fin 0"
  by (auto simp add: js_div_def signed_zero_def)

lemma still_at_zero:
  assumes d: "list_all is_double x" and n: "list_all (\<lambda>v. \<not> isNaN v) x"
    and f: "list_all is_finite direction"
    and p: "nrm = Infinity \<or> (\<exists>n. nrm = Fin n \<and> 0 < n)"
    and a: "vec_add x (vec_scale direction (js_div (Fin 0) nrm)) = Inr new_x"
  shows "vec_equal x new_x"
proof -
  from p have z: "js_div (Fin 0) nrm = Fin 0"
    by (rule div_zero_by_positive)
  from a have l: "length x = length direction"
    and v: "new_x = map (\<lambda>(x, y). js_add x y) (zip x (map (\<lambda>y. js_mul (Fin 0) y) direction))"
    unfolding z by (simp_all add: vec_add_def vec_scale_def split: if_splits)
  from v l have ln: "length x = length new_x"
    by simp
  have "js_eq (x ! i) (new_x ! i)" if i: "i < length x" for i
  proof -
    from i l have "new_x ! i = js_add (x ! i) (js_mul (Fin 0) (direction ! i))"
      unfolding v by simp
    moreover from f i l have "is_zero (js_mul (Fin 0) (direction ! i))"
      by (intro mul_zero_finite) (simp add: list_all_length)
    moreover from d n i have "is_double (x ! i)" "\<not> isNaN (x ! i)"
      by (simp_all add: list_all_length)
    ultimately show ?thesis
      by (simp add: add_zero_eq)
  qed
  with ln show ?thesis
    by (simp add: vec_equal_def vec_equal_loop_iff)
qed

lemma neg_finite: "is_finite v \<Longrightarrow> is_double v \<Longrightarrow> is_finite (js_mul (Fin (- 1)) v)"
  by (cases v) (simp_all add: js_mul_def signed_zero_def fl_exact)

lemma direction_finite:
  "list_all (\<lambda>v. is_finite v \<and> is_double v) dy \<Longrightarrow> list_all is_finite (vec_scale dy (Fin (- 1)))"
  by (simp add: vec_scale_def list_all_iff neg_finite)

lemma square_not_NaN: "is_finite v \<Longrightarrow> \<not> isNaN (js_mul v v)"
  by (cases v) (simp_all add: js_mul_def signed_zero_def)

lemma add_not_NaN:
  "not_negative a \<Longrightarrow> not_negative b \<Longrightarrow> \<not> isNaN a \<Longrightarrow> \<not> isNaN b \<Longrightarrow> \<not> isNaN (js_add a b)"
  by (cases a; cases b) (simp_all add: js_add_def)

lemma foldl_not_NaN:
  "not_negative t \<Longrightarrow> \<not> isNaN t \<Longrightarrow> list_all is_finite v \<Longrightarrow>
     \<not> isNaN (foldl (\<lambda>t x. js_add t (js_mul x x)) t v)"
proof (induction v arbitrary: t)
  case Nil
  then show ?case by simp
next
  case (Cons a v)
  from Cons.prems(3) have a: "is_finite a" and v: "list_all is_finite v"
    by simp_all
  have "not_negative (js_add t (js_mul a a))"
    using Cons.prems(1) not_negative_square by (rule not_negative_add)
  moreover have "\<not> isNaN (js_add t (js_mul a a))"
    using Cons.prems(1) not_negative_square Cons.prems(2) square_not_NaN [OF a]
    by (rule add_not_NaN)
  ultimately have "\<not> isNaN (foldl (\<lambda>t x. js_add t (js_mul x x)) (js_add t (js_mul a a)) v)"
    using v by (rule Cons.IH)
  then show ?case by simp
qed

lemma sqrt_not_NaN: "not_negative t \<Longrightarrow> \<not> isNaN t \<Longrightarrow> \<not> isNaN (Math_sqrt t)"
  by (cases t) simp_all

lemma vec_norm_not_NaN:
  assumes "list_all is_finite v"
  shows "\<not> isNaN (vec_norm v)"
proof -
  have z: "not_negative (Fin 0)" "\<not> isNaN (Fin 0)"
    by simp_all
  from foldl_not_NaN [OF z assms] not_negative_foldl [OF z(1), of v] show ?thesis
    unfolding vec_norm_def by (intro sqrt_not_NaN)
qed

lemma shrink_returns:
  assumes total: "\<forall>x. \<exists>y dy. f x = Inr (y, dy)"
    and len: "length direction = length x"
    and still: "\<And>new_x. vec_add x (vec_scale direction (js_div (Fin 0) nrm)) = Inr new_x \<Longrightarrow>
                  vec_equal x new_x"
    and bound: "of_nat k * denorm_min < max_bound"
  shows "\<exists>step' new_x.
           shrink f x y direction nrm (Fin (of_nat k * denorm_min)) = Some (Inr (step', new_x))"
  using bound
proof (induction k rule: less_induct)
  case (less k)
  let ?step = "Fin (of_nat k * denorm_min)"
  from len obtain new_x where a: "vec_add x (vec_scale direction (js_div ?step nrm)) = Inr new_x"
    by (simp add: vec_add_def vec_scale_def)
  from total obtain new_y new_dy where f: "f new_x = Inr (new_y, new_dy)"
    by blast
  show ?case
  proof (cases "accept x y nrm ?step new_x new_y")
    case True
    with a f have "shrink f x y direction nrm ?step = Some (Inr (?step, new_x))"
      by (subst shrink.simps) simp
    then show ?thesis by blast
  next
    case False
    have "k \<noteq> 0"
    proof
      assume "k = 0"
      with a have "vec_add x (vec_scale direction (js_div (Fin 0) nrm)) = Inr new_x"
        by simp
      then have "vec_equal x new_x"
        by (rule still)
      with False show False
        by (simp add: accept_def)
    qed
    then have "0 < k" by simp
    from halve_grid [OF this less.prems] obtain k' where
      k': "k' < k" "js_mul ?step (Fin (1 / 2)) = Fin (of_nat k' * denorm_min)"
        "of_nat k' * denorm_min < max_bound"
      by blast
    from less.IH [OF k'(1,3)] obtain step' new_x' where
      "shrink f x y direction nrm (Fin (of_nat k' * denorm_min)) = Some (Inr (step', new_x'))"
      by blast
    with a f False k'(2) have "shrink f x y direction nrm ?step = Some (Inr (step', new_x'))"
      by (subst shrink.simps) simp
    then show ?thesis by blast
  qed
qed

lemma regular_backtracking:
  assumes total: "\<forall>x. \<exists>y dy. f x = Inr (y, dy)"
    and reg: "regular_run f guess max_iter"
    and h: "at_loop_head f guess max_iter iter step x"
    and f: "f x = Inr (y, dy)"
    and c: "\<not> stop step (vec_norm (vec_scale dy (Fin (- 1)))) y (js_add iter (Fin 1)) max_iter"
  shows "\<exists>step' new_x.
           shrink f x y (vec_scale dy (Fin (- 1))) (vec_norm (vec_scale dy (Fin (- 1)))) step =
             Some (Inr (step', new_x))"
proof -
  let ?d = "vec_scale dy (Fin (- 1))"
  let ?n = "vec_norm ?d"
  from reg h f c have r: "step \<noteq> Infinity" "\<not> isNaN y" "list_all (\<lambda>v. \<not> isNaN v) x"
    "length dy = length x" "list_all (\<lambda>v. is_finite v \<and> is_double v) dy"
    unfolding regular_run_def by blast+
  from reg have "list_all is_double guess"
    unfolding regular_run_def by blast
  with h have xd: "list_all is_double x"
    by (rule at_loop_head_double)
  from h have g: "grid_step step"
    by (rule at_loop_head_grid)
  with r(1) obtain k :: nat where
    k: "step = Fin (of_nat k * denorm_min)" "of_nat k * denorm_min < max_bound"
    unfolding grid_step_def by blast
  from r(5) have df: "list_all is_finite ?d"
    by (rule direction_finite)
  then have nn: "\<not> isNaN ?n"
    by (rule vec_norm_not_NaN)
  have nz: "?n \<noteq> Fin 0"
  proof
    assume "?n = Fin 0"
    with c stop_at_zero_norm [OF g r(1,2), of "js_add iter (Fin 1)" max_iter]
    show False by simp
  qed
  have p: "?n = Infinity \<or> (\<exists>n. ?n = Fin n \<and> 0 < n)"
    using not_negative_vec_norm [of ?d] nn nz by (cases ?n) simp_all
  have len: "length ?d = length x"
    using r(4) by (simp add: vec_scale_def)
  have "\<exists>step' new_x.
      shrink f x y ?d ?n (Fin (of_nat k * denorm_min)) = Some (Inr (step', new_x))"
    using total len still_at_zero [OF xd r(3) df p] k(2) by (rule shrink_returns)
  then show ?thesis
    unfolding k(1) .
qed

lemma descend_terminates:
  assumes total: "\<forall>x. \<exists>y dy. f x = Inr (y, dy)"
    and reg: "regular_run f guess (Fin m)"
    and head: "at_loop_head f guess (Fin m) iter step x"
    and iter: "iter = Fin (of_nat n)" and n: "n < 2 ^ 53" and m: "m \<le> 2 ^ 53"
  shows "\<exists>p. descend f (Fin m) iter step x = Some (Inr p)"
  using head iter n
proof (induction "nat \<lceil>m\<rceil> - n" arbitrary: n iter step x rule: less_induct)
  case less
  from total obtain y dy where f: "f x = Inr (y, dy)" by blast
  let ?d = "vec_scale dy (Fin (- 1))"
  have i: "js_add iter (Fin 1) = Fin (of_nat (Suc n))"
    unfolding less.prems(2) using less.prems(3) by (rule increment)
  show ?case
  proof (cases "stop step (vec_norm ?d) y (js_add iter (Fin 1)) (Fin m)")
    case True
    with f have "descend f (Fin m) iter step x = Some (Inr x)" by (rule descend_stop)
    then show ?thesis by blast
  next
    case False
    then have "\<not> m \<le> of_nat (Suc n)"
      unfolding i using stop_at_cap by blast
    then have sm: "of_nat (Suc n) < m"
      by simp
    then have lt: "nat \<lceil>m\<rceil> - Suc n < nat \<lceil>m\<rceil> - n"
      by linarith
    from sm m have "(of_nat (Suc n) :: real) < of_nat (2 ^ 53)"
      by simp
    then have b: "Suc n < 2 ^ 53"
      by (simp only: of_nat_less_iff)
    from regular_backtracking [OF total reg less.prems(1) f False] obtain step' new_x where
      s: "shrink f x y ?d (vec_norm ?d) step = Some (Inr (step', new_x))"
      by blast
    from less.prems(1) f False s
    have "at_loop_head f guess (Fin m) (js_add iter (Fin 1)) (js_mul step' (fl (11 / 10))) new_x"
      by (rule at_loop_head.again)
    from less.hyps [OF lt this i b] descend_continue [OF f False s] show ?thesis
      by simp
  qed
qed

lemma at_loop_head_0:
  assumes "at_loop_head f guess (Fin m) (Fin 0) step x" and "m \<le> 2 ^ 53"
  shows "step = Fin 1 \<and> x = guess"
  using assms(1)
proof (cases rule: at_loop_head.cases)
  case start
  then show ?thesis by simp
next
  case (again iter step0 x0 y dy step')
  from at_loop_head_counter [OF again(3) assms(2)] obtain n :: nat where
    n: "iter = Fin (of_nat n)" "n = 0 \<or> of_nat n < m"
    by blast
  have "(of_nat n :: real) < 2 ^ 53"
    using n(2) assms(2) by auto
  then have "(of_nat n :: real) < of_nat (2 ^ 53)"
    by simp
  then have "n < 2 ^ 53"
    by (simp only: of_nat_less_iff)
  from increment [OF this] again(1) n(1) have False
    by simp
  then show ?thesis ..
qed

text \<open>
  With \<open>max_iter = 2\<close> only the first outer iteration can enter the backtracking loop,
  so the run is without accidents when the guess and the objective at the guess are.
\<close>

lemma regular_run_two:
  assumes "list_all is_double guess" and "list_all (\<lambda>v. \<not> isNaN v) guess"
    and "f guess = Inr (y0, dy0)" and "\<not> isNaN y0" and "length dy0 = length guess"
    and "list_all (\<lambda>v. is_finite v \<and> is_double v) dy0"
  shows "regular_run f guess (Fin 2)"
  unfolding regular_run_def
proof (intro conjI allI impI, goal_cases)
  case 1
  show ?case
    by (rule assms(1))
next
  fix iter step x y dy
  assume a: "at_loop_head f guess (Fin 2) iter step x \<and> f x = Inr (y, dy) \<and>
      \<not> stop step (vec_norm (vec_scale dy (Fin (- 1)))) y (js_add iter (Fin 1)) (Fin 2)"
  have m: "(2::real) \<le> 2 ^ 53" by simp
  from a at_loop_head_counter [OF _ m] obtain n :: nat where
    n: "iter = Fin (of_nat n)" "n = 0 \<or> of_nat n < (2::real)"
    by blast
  then have "n < 2 ^ 53" by auto
  from increment [OF this] have i: "js_add iter (Fin 1) = Fin (of_nat (Suc n))"
    unfolding n(1) .
  from a have "\<not> (2::real) \<le> of_nat (Suc n)"
    unfolding i using stop_at_cap by blast
  then have "n = 0" by simp
  with a n(1) at_loop_head_0 [OF _ m] have s: "step = Fin 1" "x = guess"
    by auto
  with a assms(3) have y: "y = y0" "dy = dy0"
    by simp_all
  show "step \<noteq> Infinity" "\<not> isNaN y" "list_all (\<lambda>v. \<not> isNaN v) x" "length dy = length x"
    "list_all (\<lambda>v. is_finite v \<and> is_double v) dy"
    unfolding s y using assms by simp_all
qed

lemma first_coordinate_regular: "regular_run first_coordinate [Fin 10] (Fin 2)"
  by (rule regular_run_two [where ?y0.0 = "Fin 10" and ?dy0.0 = "[Fin 1]"])
    (simp_all add: first_coordinate_def nth_opt_def representable_numeral)

lemma flat_objective_regular: "regular_run flat_objective [Fin 0] (Fin 2)"
  by (rule regular_run_two [where ?y0.0 = "Fin 1" and ?dy0.0 = "[Fin 1]"])
    (simp_all add: flat_objective_def)

text \<open>
  A run that enters the backtracking loop once: from the guess \<open>[10]\<close>, with the first
  coordinate as objective and \<open>max_iter = 2\<close>, the first trial point \<open>[9]\<close> is
  accepted, and the second outer iteration returns it.
\<close>

lemma first_coordinate_shrink:
  "shrink first_coordinate [Fin 10] (Fin 10) [Fin (- 1)] (Fin 1) (Fin 1) =
     Some (Inr (Fin 1, [Fin 9]))"
proof -
  from tenth_literal obtain c where
    c: "fl (1 / 10) = Fin c" "0 < c" "c < 1" "representable c"
    by blast
  have "js_mul (js_mul (Fin c) (Fin 1)) (Fin 1) = Fin c"
    using c(2,4) by (simp add: js_mul_def fl_exact)
  then have "js_gt (js_sub (Fin 10) (Fin 9)) (js_mul (js_mul (fl (1 / 10)) (Fin 1)) (Fin 1))"
    unfolding c(1) using c(3) by (simp add: js_sub_def js_add_def js_gt_Fin)
  then have a: "accept [Fin 10] (Fin 10) (Fin 1) (Fin 1) [Fin 9] (Fin 9)"
    by (simp add: accept_def)
  have v: "vec_add [Fin 10] (vec_scale [Fin (- 1)] (js_div (Fin 1) (Fin 1))) = Inr [Fin 9]"
    by (simp add: vec_add_def vec_scale_def js_div_def js_mul_def js_add_def)
  have f: "first_coordinate [Fin 9] = Inr (Fin 9, [Fin 1])"
    by (simp add: first_coordinate_def nth_opt_def)
  show ?thesis
    by (subst shrink.simps) (simp add: v f a)
qed

lemma first_coordinate_run:
  "gradient_descent_minimize first_coordinate [Fin 10] (Fin 2) = Some (Inr [Fin 9])"
proof -
  have d: "vec_scale [Fin 1] (Fin (- 1)) = [Fin (- 1)]"
    by (simp add: vec_scale_def js_mul_def)
  have f: "first_coordinate [Fin 10] = Inr (Fin 10, [Fin 1])"
    "first_coordinate [Fin 9] = Inr (Fin 9, [Fin 1])"
    by (simp_all add: first_coordinate_def nth_opt_def)
  have n: "\<not> stop (Fin 1) (vec_norm (vec_scale [Fin 1] (Fin (- 1)))) (Fin 10)
      (js_add (Fin 0) (Fin 1)) (Fin 2)"
    unfolding vec_norm_unit by (rule not_stop_first) simp_all
  have s: "shrink first_coordinate [Fin 10] (Fin 10) (vec_scale [Fin 1] (Fin (- 1)))
      (vec_norm (vec_scale [Fin 1] (Fin (- 1)))) (Fin 1) = Some (Inr (Fin 1, [Fin 9]))"
    unfolding vec_norm_unit unfolding d by (rule first_coordinate_shrink)
  have i: "js_add (js_add (Fin 0) (Fin 1)) (Fin 1) = Fin 2"
    by (simp add: js_add_def)
  have "stop (js_mul (Fin 1) (fl (11 / 10))) (vec_norm (vec_scale [Fin 1] (Fin (- 1)))) (Fin 9)
      (js_add (js_add (Fin 0) (Fin 1)) (Fin 1)) (Fin 2)"
    unfolding i by (rule stop_at_cap) simp
  with f(2) have "descend first_coordinate (Fin 2) (js_add (Fin 0) (Fin 1))
      (js_mul (Fin 1) (fl (11 / 10))) [Fin 9] = Some (Inr [Fin 9])"
    by (rule descend_stop)
  with descend_continue [OF f(1) n s] show ?thesis
    unfolding gradient_descent_minimize_def by simp
qed

text \<open>
  Claim C5, amended. Called with \<open>max_iter\<close> at most 1 on a guess where the objective
  does not throw, the minimizer returns the guess after one outer iteration, whatever
  the tolerance test says. In each outer iteration it returns the current point as
  soon as the test on the incremented counter holds. For an objective that never
  throws and a finite \<open>max_iter\<close> of at most \<open>2^53\<close> (beyond which \<open>iter++\<close> stops
  counting), the minimizer terminates and returns a point in every run without
  numerical accidents: the guess is a vector of numbers, and whenever the backtracking
  loop is entered the step is not \<open>Infinity\<close>, the point holds no \<open>NaN\<close>, the value is
  not \<open>NaN\<close>, and the gradient has the length of the point and is finite. The
  backtracking loop then ends at the latest when the halved step has reached 0, where
  the new point equals the old one.
\<close>

theorem minimizer_returns:
  "(f guess = Inr (y0, dy0) \<and> m \<le> 1 \<longrightarrow>
      gradient_descent_minimize f guess (Fin m) = Some (Inr guess)) \<and>
   (f x = Inr (y, dy) \<and>
    stop step (vec_norm (vec_scale dy (Fin (- 1)))) y (js_add iter (Fin 1)) max_iter \<longrightarrow>
      descend f max_iter iter step x = Some (Inr x)) \<and>
   ((\<forall>x. \<exists>y dy. f x = Inr (y, dy)) \<and> m \<le> 2 ^ 53 \<and> regular_run f guess (Fin m) \<longrightarrow>
      (\<exists>p. gradient_descent_minimize f guess (Fin m) = Some (Inr p)))"
proof (intro conjI impI)
  assume a: "f guess = Inr (y0, dy0) \<and> m \<le> 1"
  have "js_add (Fin 0) (Fin 1) = Fin 1"
    by (simp add: js_add_def)
  with a have "stop (Fin 1) (vec_norm (vec_scale dy0 (Fin (- 1)))) y0 (js_add (Fin 0) (Fin 1)) (Fin m)"
    by (simp add: stop_at_cap)
  with a show "gradient_descent_minimize f guess (Fin m) = Some (Inr guess)"
    unfolding gradient_descent_minimize_def by (intro descend_stop) simp_all
next
  assume "f x = Inr (y, dy) \<and>
    stop step (vec_norm (vec_scale dy (Fin (- 1)))) y (js_add iter (Fin 1)) max_iter"
  then show "descend f max_iter iter step x = Some (Inr x)"
    using descend_stop by blast
next
  assume a: "(\<forall>x. \<exists>y dy. f x = Inr (y, dy)) \<and> m \<le> 2 ^ 53 \<and> regular_run f guess (Fin m)"
  have "Fin 0 = Fin (of_nat 0)" "(0::nat) < 2 ^ 53"
    by simp_all
  with a show "\<exists>p. gradient_descent_minimize f guess (Fin m) = Some (Inr p)"
    unfolding gradient_descent_minimize_def
    using descend_terminates [of f guess m "Fin 0" "Fin 1" guess 0] at_loop_head.start
    by blast
qed

theorem minimizer_returns_witness:
  "gradient_descent_minimize first_coordinate [Fin 10] (Fin 1) = Some (Inr [Fin 10]) \<and>
   descend first_coordinate (Fin 5) (Fin 0) (Fin 0) [Fin 10] = Some (Inr [Fin 10]) \<and>
   regular_run first_coordinate [Fin 10] (Fin 2) \<and>
   (\<exists>p. gradient_descent_minimize first_coordinate [Fin 10] (Fin 2) = Some (Inr p)) \<and>
   regular_run flat_objective [Fin 0] (Fin 2) \<and>
   (\<exists>p. gradient_descent_minimize flat_objective [Fin 0] (Fin 2) = Some (Inr p))"
proof -
  have f: "first_coordinate [Fin 10] = Inr (Fin 10, [Fin 1])"
    by (simp add: first_coordinate_def nth_opt_def)
  have t: "\<forall>x. \<exists>y dy. first_coordinate x = Inr (y, dy)"
    by (simp add: first_coordinate_def)
  have s: "stop (Fin 0) (vec_norm (vec_scale [Fin 1] (Fin (- 1)))) (Fin 10)
      (js_add (Fin 0) (Fin 1)) (Fin 5)"
    unfolding vec_norm_unit by (rule stop_at_zero_step) simp_all
  have 1: "gradient_descent_minimize first_coordinate [Fin 10] (Fin 1) = Some (Inr [Fin 10])"
    using minimizer_returns [of first_coordinate "[Fin 10]" "Fin 10" "[Fin 1]" 1] f by simp
  have 2: "descend first_coordinate (Fin 5) (Fin 0) (Fin 0) [Fin 10] = Some (Inr [Fin 10])"
    using minimizer_returns [of first_coordinate _ _ _ _ "[Fin 10]" "Fin 10" "[Fin 1]" "Fin 0"
        "Fin 0" "Fin 5"] f s
    by blast
  have 3: "\<exists>p. gradient_descent_minimize first_coordinate [Fin 10] (Fin 2) = Some (Inr p)"
    using minimizer_returns [of first_coordinate "[Fin 10]" _ _ 2] t first_coordinate_regular
    by simp
  have u: "\<forall>x. \<exists>y dy. flat_objective x = Inr (y, dy)"
    by (simp add: flat_objective_def)
  have 4: "\<exists>p. gradient_descent_minimize flat_objective [Fin 0] (Fin 2) = Some (Inr p)"
    using minimizer_returns [of flat_objective "[Fin 0]" _ _ 2] u flat_objective_regular
    by simp
  from 1 2 3 4 first_coordinate_regular flat_objective_regular show ?thesis by blast
qed

end
